theory Spec2Isabelle
  imports Complex_Main "HOL-Library.AList" "HOL-Library.Sublist"
begin

section \<open>Call analytics and case-check triage: a shallow embedding\<close>

text \<open>
  The development follows three Python modules of the repository:
  \<^item> \<^verbatim>\<open>summariser/case_check/app.py\<close>: the case-check handler (triage roll-up,
    evidence spans, persistence, idempotency);
  \<^item> \<^verbatim>\<open>summariser/extract_metrics/app.py\<close>: the caption parser and the speaker
    attribution;
  \<^item> \<^verbatim>\<open>summariser/initiate_case_check/app.py\<close>: the fast path of the initiating
    handler.

  Conventions. Python \<^verbatim>\<open>str\<close> is \<^typ>\<open>string\<close>: one \<^typ>\<open>char\<close> per code point, so
  the text is modelled on the code points below 256. A finite Python \<^verbatim>\<open>float\<close> is
  the rational it denotes. In the triage roll-up the binary rounding of every
  operation is modelled (\<open>round_double\<close>), since a pass rate can depend on it; in
  the caption parser and the speaker attribution the arithmetic on times is
  idealised as exact. Every \<^verbatim>\<open>raise\<close> of the source is a value \<open>Inl e\<close> of a sum
  type.
\<close>

subsection \<open>Python values and errors\<close>

datatype py_error =
    ValueError | TypeError | AttributeError | OverflowError | KeyError
  | NoSuchKey | ValidationError | ExternalError

text \<open>Decoded JSON, as \<^verbatim>\<open>json.loads\<close> and the classifier's tool input give it. A
  dictionary is an association list with distinct keys in insertion order. The
  decoder also yields the three floats that are not finite: for the literals
  \<^verbatim>\<open>Infinity\<close>, \<^verbatim>\<open>-Infinity\<close> and \<^verbatim>\<open>NaN\<close>, and for a number too large for a double
  (\<^verbatim>\<open>1e999\<close>).\<close>

datatype json =
    JNull
  | JBool bool
  | JInt int
  | JFloat rat
  | JInfinity
  | JMinusInfinity
  | JNaN
  | JStr string
  | JArr "json list"
  | JObj "(string \<times> json) list"

text \<open>Truthiness of a Python value (\<^verbatim>\<open>if x:\<close>, \<^verbatim>\<open>not x\<close>, \<^verbatim>\<open>x or y\<close>).\<close>

fun truthy :: "json \<Rightarrow> bool" where
  "truthy JNull = False"
| "truthy (JBool b) = b"
| "truthy (JInt n) = (n \<noteq> 0)"
| "truthy (JFloat q) = (q \<noteq> 0)"
| "truthy JInfinity = True"
| "truthy JMinusInfinity = True"
| "truthy JNaN = True"
| "truthy (JStr s) = (s \<noteq> [])"
| "truthy (JArr xs) = (xs \<noteq> [])"
| "truthy (JObj kvs) = (kvs \<noteq> [])"

text \<open>\<^verbatim>\<open>d.get(k)\<close> and \<^verbatim>\<open>d.get(k, default)\<close> on a dictionary.\<close>

definition dict_get :: "(string \<times> json) list \<Rightarrow> string \<Rightarrow> json option" where
  "dict_get d k = map_of d k"

definition dict_get_default :: "(string \<times> json) list \<Rightarrow> string \<Rightarrow> json \<Rightarrow> json" where
  "dict_get_default d k dflt = (case map_of d k of None \<Rightarrow> dflt | Some v \<Rightarrow> v)"

text \<open>\<^verbatim>\<open>d[k] = v\<close>: an existing key keeps its place, a new key goes last.\<close>

definition dict_set :: "(string \<times> json) list \<Rightarrow> string \<Rightarrow> json \<Rightarrow> (string \<times> json) list" where
  "dict_set d k v = AList.update k v d"

subsection \<open>The static checklist\<close>

datatype severity = Low | Medium | High

datatype theme = BusinessRisk | CustomerExperience

text \<open>A checklist item of \<^verbatim>\<open>STARTER_SESSION_CHECKS\<close>. The prompt texts take no part
  in the computations modelled here and are left out.\<close>

record checklist_item =
  check_id :: string
  required :: bool
  severity :: severity
  theme :: theme

definition mk_check :: "string \<Rightarrow> bool \<Rightarrow> severity \<Rightarrow> theme \<Rightarrow> checklist_item" where
  "mk_check i r s t = \<lparr>check_id = i, required = r, severity = s, theme = t\<rparr>"

definition STARTER_SESSION_CHECKS :: "checklist_item list" where
  "STARTER_SESSION_CHECKS =
   [ mk_check ''call_recording_confirmed'' True High BusinessRisk,
     mk_check ''regulated_advice_given'' True High BusinessRisk,
     mk_check ''vulnerability_identified'' True High BusinessRisk,
     mk_check ''dob_confirmed'' True Medium BusinessRisk,
     mk_check ''client_name_confirmed'' True Medium BusinessRisk,
     mk_check ''marital_status_confirmed'' True Medium BusinessRisk,
     mk_check ''citizenship_confirmed'' True Medium BusinessRisk,
     mk_check ''dependents_confirmed'' True Medium BusinessRisk,
     mk_check ''pension_details_confirmed'' True Medium BusinessRisk,
     mk_check ''income_expenditure_confirmed'' True Medium BusinessRisk,
     mk_check ''assets_liabilities_confirmed'' True Medium BusinessRisk,
     mk_check ''emergency_fund_confirmed'' True Medium BusinessRisk,
     mk_check ''will_confirmed'' True Low BusinessRisk,
     mk_check ''pension_withdrawal_if_over_50'' False Medium BusinessRisk,
     mk_check ''high_interest_debt_addressed'' False High BusinessRisk,
     mk_check ''fees_charges_explained'' True High BusinessRisk,
     mk_check ''way_forward_agreed'' True Medium BusinessRisk,
     mk_check ''money_calculators_introduced'' True Medium BusinessRisk,
     mk_check ''coach_introduction_signposting'' True Medium CustomerExperience,
     mk_check ''client_goals_established'' True High CustomerExperience,
     mk_check ''client_motivations_established'' True Medium CustomerExperience,
     mk_check ''asked_client_move_forward'' True High CustomerExperience,
     mk_check ''client_questions_opportunity'' True Medium CustomerExperience ]"

text \<open>\<^verbatim>\<open>severity_by_id = {c["id"]: c.get("severity", "low") for c in STARTER_SESSION_CHECKS}\<close>:
  a dictionary comprehension; a later item with the same id overwrites an earlier one.
  Every item of the list carries a severity, so the default never applies.\<close>

definition severity_by_id :: "string \<Rightarrow> severity option" where
  "severity_by_id = map_of (rev (map (\<lambda>c. (check_id c, severity c)) STARTER_SESSION_CHECKS))"

subsection \<open>The validated payload (the Pydantic models)\<close>

datatype status = Competent | CompetentWithDevelopment | Fail | NotApplicable | Inconclusive

text \<open>\<^verbatim>\<open>CaseCheckResult\<close> after \<^verbatim>\<open>model_dump()\<close>. The two optional texts may be
  \<^verbatim>\<open>None\<close>.\<close>

record case_check_result =
  id_r :: string
  status :: status
  confidence :: rat
  evidence_spans :: "(int \<times> int) list"
  evidence_quote :: "string option"
  comment :: "string option"

text \<open>\<^verbatim>\<open>CaseCheckPayload\<close> after \<^verbatim>\<open>model_dump()\<close>; \<^verbatim>\<open>overall\<close> is any dictionary.\<close>

record case_check_payload =
  check_schema_version :: string
  session_type :: string
  checklist_version :: string
  meeting_id :: string
  model_version :: string
  prompt_version :: string
  results :: "case_check_result list"
  overall :: "(string \<times> json) list"

subsection \<open>The handler after validation: flags and clean-up\<close>

text \<open>The body of the loop \<^verbatim>\<open>for r in data.get("results", [])\<close> of \<^verbatim>\<open>lambda_handler\<close>:
  the three fields are normalised in place.\<close>

definition clean_result :: "case_check_result \<Rightarrow> case_check_result" where
  "clean_result r =
     r\<lparr> evidence_quote := Some (case evidence_quote r of None \<Rightarrow> [] | Some q \<Rightarrow> q),
        comment := Some (case comment r of None \<Rightarrow> [] | Some c \<Rightarrow> c),
        confidence := max 0 (min 1 (confidence r)) \<rparr>"

text \<open>The two flags the same loop raises. The accumulators start at \<^verbatim>\<open>False\<close> and are
  only ever set to \<^verbatim>\<open>True\<close>.\<close>

fun scan_flags :: "case_check_result list \<Rightarrow> bool \<times> bool \<Rightarrow> bool \<times> bool" where
  "scan_flags [] acc = acc"
| "scan_flags (r # rs) (has_high_severity_failures, has_vulnerability) =
     scan_flags rs
       ( if status r = Fail \<and> severity_by_id (id_r r) = Some High
         then True else has_high_severity_failures,
         if id_r r = ''vulnerability_identified'' \<and> status r \<in> {Competent, Fail}
         then True else has_vulnerability )"

text \<open>The data that is persisted: the dumped payload with the three overwritten
  identifiers, the cleaned results, the recomputed flag and the call analytics.\<close>

record case_data =
  payload :: case_check_payload
  call_analytics :: json

definition finalize ::
  "string \<Rightarrow> string \<Rightarrow> string \<Rightarrow> json \<Rightarrow> case_check_payload \<Rightarrow> case_data \<times> bool" where
  "finalize mid MODEL_VERSION PROMPT_VERSION analytics parsed =
     (let flags = scan_flags (results parsed) (False, False);
          data = parsed\<lparr> meeting_id := mid,
                         model_version := MODEL_VERSION,
                         prompt_version := PROMPT_VERSION,
                         results := map clean_result (results parsed),
                         overall := dict_set (overall parsed)
                                      ''has_high_severity_failures'' (JBool (fst flags)) \<rparr>
      in (\<lparr>payload = data, call_analytics = analytics\<rparr>, snd flags))"

subsection \<open>Properties of the flags\<close>

lemma scan_flags_eq:
  "scan_flags rs (a, b) =
     (a \<or> (\<exists>r\<in>set rs. status r = Fail \<and> severity_by_id (id_r r) = Some High),
      b \<or> (\<exists>r\<in>set rs. id_r r = ''vulnerability_identified'' \<and>
                (status r = Competent \<or> status r = Fail)))"
  by (induction rs arbitrary: a b) auto

text \<open>The dictionary built from the checklist answers \<^verbatim>\<open>"high"\<close> exactly for the ids
  of the items whose severity is high.\<close>

lemma severity_high_iff:
  "severity_by_id i = Some High \<longleftrightarrow>
     (\<exists>c\<in>set STARTER_SESSION_CHECKS. check_id c = i \<and> severity c = High)"
  unfolding severity_by_id_def STARTER_SESSION_CHECKS_def mk_check_def
  by (auto split: if_splits)

lemma dict_get_set: "dict_get (dict_set d k v) k = Some v"
  by (simp add: dict_get_def dict_set_def update_Some_unfold)

text \<open>
  Claim C2. For every validated payload, the value of
  \<^verbatim>\<open>overall["has_high_severity_failures"]\<close> in the data that is persisted is true iff some
  result has status \<^verbatim>\<open>Fail\<close> and its id is the id of a checklist item of severity high.
  The right-hand side does not mention the \<^verbatim>\<open>overall\<close> the classifier supplied: the
  flag is recomputed from the results and overwrites whatever was there.
\<close>

theorem has_high_severity_failures_recomputed:
  "dict_get (overall (payload (fst (finalize mid mv pv analytics parsed))))
       ''has_high_severity_failures''
   = Some (JBool (\<exists>r\<in>set (results parsed). status r = Fail \<and>
        (\<exists>c\<in>set STARTER_SESSION_CHECKS. check_id c = id_r r \<and> severity c = High)))"
  by (simp add: finalize_def Let_def scan_flags_eq dict_get_set severity_high_iff)

text \<open>
  Claim C3. The \<^verbatim>\<open>hasVulnerability\<close> flag the handler returns is true iff some result
  has id \<^verbatim>\<open>vulnerability_identified\<close> and status \<^verbatim>\<open>Competent\<close> or \<^verbatim>\<open>Fail\<close>; in
  particular a single result for that id raises the flag for these two statuses only,
  not for \<^verbatim>\<open>NotApplicable\<close>, \<^verbatim>\<open>Inconclusive\<close> or \<^verbatim>\<open>CompetentWithDevelopment\<close>.
\<close>

theorem has_vulnerability_iff:
  "snd (finalize mid mv pv analytics parsed) =
     (\<exists>r\<in>set (results parsed).
        id_r r = ''vulnerability_identified'' \<and> (status r = Competent \<or> status r = Fail))
   \<and> snd (finalize mid mv pv analytics
          (parsed\<lparr>results := [r\<lparr>id_r := ''vulnerability_identified'', status := s\<rparr>]\<rparr>))
     = (s \<noteq> NotApplicable \<and> s \<noteq> Inconclusive \<and> s \<noteq> CompetentWithDevelopment)"
  by (cases s; simp add: finalize_def Let_def scan_flags_eq)

subsection \<open>The fallback computation of \<^verbatim>\<open>overall\<close>\<close>

subsubsection \<open>Binary floating point\<close>

text \<open>The number of binary digits of a positive integer.\<close>

function bit_length :: "int \<Rightarrow> nat" where
  "bit_length k = (if k \<le> 0 then 0 else Suc (bit_length (k div 2)))"
  by pat_completeness auto
termination
  by (relation "measure nat") auto

declare bit_length.simps [simp del]

definition pow2 :: "int \<Rightarrow> rat" where
  "pow2 e = (if 0 \<le> e then 2 ^ nat e else 1 / 2 ^ nat (- e))"

text \<open>The exponent of a positive rational: the \<open>e\<close> with \<open>2\<^sup>e \<le> x < 2\<^sup>e\<^sup>+\<^sup>1\<close>. The
  quotient of two integers of \<open>a\<close> and \<open>b\<close> binary digits lies between \<open>2\<^sup>a\<^sup>-\<^sup>b\<^sup>-\<^sup>1\<close> and
  \<open>2\<^sup>a\<^sup>-\<^sup>b\<^sup>+\<^sup>1\<close>.\<close>

definition floor_log2 :: "rat \<Rightarrow> int" where
  "floor_log2 x =
     (let (p, q) = quotient_of x;
          e = int (bit_length p) - int (bit_length q)
      in if pow2 e \<le> x then e else e - 1)"

text \<open>The nearest integer, a tie going to the even one.\<close>

definition round_half_even :: "rat \<Rightarrow> int" where
  "round_half_even y =
     (let f = \<lfloor>y\<rfloor>; d = y - of_int f
      in if d < 1 / 2 then f else if 1 / 2 < d then f + 1
         else if even f then f else f + 1)"

text \<open>The double nearest to a rational (IEEE 754 binary64, round to nearest, ties to
  even): 53 significant binary digits, and below \<open>2\<^sup>-\<^sup>1\<^sup>0\<^sup>2\<^sup>2\<close> the fixed spacing of the
  subnormal numbers. Overflow to an infinity, beyond \<open>2\<^sup>1\<^sup>0\<^sup>2\<^sup>4\<close>, is not part of the
  function: the roll-up computes with numbers between 0 and 100.\<close>

definition round_double :: "rat \<Rightarrow> rat" where
  "round_double x =
     (if x = 0 then 0
      else (let e = max (floor_log2 \<bar>x\<bar>) (- 1022); ulp = pow2 (e - 52)
            in of_int (round_half_even (x / ulp)) * ulp))"

text \<open>\<^verbatim>\<open>a / b\<close> on two integers is the correctly rounded quotient; \<^verbatim>\<open>x * y\<close> on floats
  the correctly rounded product.\<close>

definition int_true_div :: "int \<Rightarrow> int \<Rightarrow> rat" where
  "int_true_div a b = round_double (of_int a / of_int b)"

definition float_mul :: "rat \<Rightarrow> rat \<Rightarrow> rat" where
  "float_mul x y = round_double (x * y)"

text \<open>\<^verbatim>\<open>round(x, 1)\<close> on a float: the exact value of \<open>x\<close> is rounded to the nearest
  multiple of one tenth, a tie going to the even tenth (\<open>py_round1\<close>), and the decimal
  result is read back as the nearest double.\<close>

definition py_round1 :: "rat \<Rightarrow> rat" where
  "py_round1 x =
     (let y = x * 10; f = \<lfloor>y\<rfloor>; d = y - of_int f
      in of_int (if d < 1 / 2 then f else if 1 / 2 < d then f + 1
                 else if even f then f else f + 1) / 10)"

definition float_round1 :: "rat \<Rightarrow> rat" where
  "float_round1 x = round_double (py_round1 x)"

subsubsection \<open>The roll-up\<close>

text \<open>\<^verbatim>\<open>severity_by_id.get(check_id)\<close> for whatever value the classifier put under
  \<^verbatim>\<open>"id"\<close>: a list or a dictionary cannot be hashed and the lookup raises; any other
  value that is not a string is simply not a key.\<close>

fun severity_by_id_get :: "json \<Rightarrow> py_error + severity option" where
  "severity_by_id_get (JStr s) = Inr (severity_by_id s)"
| "severity_by_id_get (JArr xs) = Inl TypeError"
| "severity_by_id_get (JObj kvs) = Inl TypeError"
| "severity_by_id_get v = Inr None"

text \<open>The loop \<^verbatim>\<open>for r in results_list\<close> with its two accumulating lists.\<close>

fun collect_failed ::
  "json list \<Rightarrow> json list \<times> json list \<Rightarrow> py_error + json list \<times> json list" where
  "collect_failed [] acc = Inr acc"
| "collect_failed (JObj r # rs) (failed_ids, high_severity_flags) =
     (if dict_get r ''status'' = Some (JStr ''Fail'') then
        (let check_id = dict_get_default r ''id'' (JStr '''') in
         case severity_by_id_get check_id of
           Inl e \<Rightarrow> Inl e
         | Inr sev \<Rightarrow>
             collect_failed rs
               (failed_ids @ [check_id],
                if sev = Some High then high_severity_flags @ [check_id]
                else high_severity_flags))
      else collect_failed rs (failed_ids, high_severity_flags))"
| "collect_failed (r # rs) acc = collect_failed rs acc"

text \<open>The rest of the branch \<^verbatim>\<open>if isinstance(results_list, list)\<close>:
  \<^verbatim>\<open>pass_rate = (passed_count / total_checks * 100) if total_checks > 0 else 0.0\<close>, a
  division and then a multiplication of floats, and \<^verbatim>\<open>round(pass_rate, 1)\<close>.\<close>

definition calculate_overall :: "json list \<Rightarrow> py_error + (string \<times> json) list" where
  "calculate_overall results_list =
     (let total_checks = length results_list in
      case collect_failed results_list ([], []) of
        Inl e \<Rightarrow> Inl e
      | Inr (failed_ids, high_severity_flags) \<Rightarrow>
          (let passed_count = int total_checks - int (length failed_ids);
               pass_rate = (if total_checks > 0
                            then float_mul (int_true_div passed_count (int total_checks)) 100
                            else 0)
           in Inr [ (''pass_rate'', JFloat (float_round1 pass_rate)),
                    (''failed_ids'', JArr failed_ids),
                    (''high_severity_flags'', JArr high_severity_flags),
                    (''has_high_severity_failures'',
                       JBool (length high_severity_flags > 0)) ]))"

definition empty_overall :: "(string \<times> json) list" where
  "empty_overall =
     [ (''pass_rate'', JFloat 0), (''failed_ids'', JArr []),
       (''high_severity_flags'', JArr []), (''has_high_severity_failures'', JBool False) ]"

text \<open>The block \<^verbatim>\<open>if "overall" not in validated_json or not validated_json.get("overall")\<close>
  of \<^verbatim>\<open>lambda_handler\<close>; the result is the updated \<^verbatim>\<open>validated_json\<close>.\<close>

definition ensure_overall :: "(string \<times> json) list \<Rightarrow> py_error + (string \<times> json) list" where
  "ensure_overall validated_json =
     (if dict_get validated_json ''overall'' = None
         \<or> \<not> truthy (dict_get_default validated_json ''overall'' JNull)
      then
        (case dict_get_default validated_json ''results'' (JArr []) of
           JArr results_list \<Rightarrow>
             (case calculate_overall results_list of
                Inl e \<Rightarrow> Inl e
              | Inr ov \<Rightarrow> Inr (dict_set validated_json ''overall'' (JObj ov)))
         | _ \<Rightarrow> Inr (dict_set validated_json ''overall'' (JObj empty_overall)))
      else Inr validated_json)"

text \<open>The pass rate that the block stores, if it stores one.\<close>

definition fallback_pass_rate :: "(string \<times> json) list \<Rightarrow> json option" where
  "fallback_pass_rate validated_json =
     (case ensure_overall validated_json of
        Inl e \<Rightarrow> None
      | Inr vj \<Rightarrow>
          (case dict_get vj ''overall'' of
             Some (JObj ov) \<Rightarrow> dict_get ov ''pass_rate''
           | _ \<Rightarrow> None))"

subsubsection \<open>The roll-up as the specification words it\<close>

text \<open>A result counts as failed when it is a dictionary whose status is the string
  \<^verbatim>\<open>Fail\<close>; its id is the value under \<^verbatim>\<open>"id"\<close> (the empty string when there is none).\<close>

fun is_fail :: "json \<Rightarrow> bool" where
  "is_fail (JObj r) = (dict_get r ''status'' = Some (JStr ''Fail''))"
| "is_fail v = False"

fun result_id :: "json \<Rightarrow> json" where
  "result_id (JObj r) = dict_get_default r ''id'' (JStr '''')"
| "result_id v = JStr ''''"

fun hashable :: "json \<Rightarrow> bool" where
  "hashable (JArr xs) = False"
| "hashable (JObj kvs) = False"
| "hashable v = True"

text \<open>The severity of the checklist item an id names, \<^verbatim>\<open>low\<close> for an id that names
  none.\<close>

definition checklist_severity :: "json \<Rightarrow> severity" where
  "checklist_severity i =
     (case i of
        JStr s \<Rightarrow> (case find (\<lambda>c. check_id c = s) STARTER_SESSION_CHECKS of
                    Some c \<Rightarrow> severity c | None \<Rightarrow> Low)
      | _ \<Rightarrow> Low)"

definition spec_failed_ids :: "json list \<Rightarrow> json list" where
  "spec_failed_ids rs = map result_id (filter is_fail rs)"

definition spec_high_severity_flags :: "json list \<Rightarrow> json list" where
  "spec_high_severity_flags rs =
     filter (\<lambda>i. checklist_severity i = High) (spec_failed_ids rs)"

text \<open>The pass rate in the words of the specification,
  \<^verbatim>\<open>round(100 * (total_checks - len(failed_ids)) / total_checks, 1)\<close>: the product of
  integers is exact and one division rounds.\<close>

definition spec_pass_rate :: "json list \<Rightarrow> rat" where
  "spec_pass_rate rs =
     (if length rs > 0
      then float_round1
             (int_true_div (100 * (int (length rs) - int (length (spec_failed_ids rs))))
                (int (length rs)))
      else 0)"

text \<open>The pass rate with the operations in the order of the handler,
  \<^verbatim>\<open>round((total_checks - len(failed_ids)) / total_checks * 100, 1)\<close>: the division
  rounds, and the multiplication rounds again.\<close>

definition divided_pass_rate :: "json list \<Rightarrow> rat" where
  "divided_pass_rate rs =
     (if length rs > 0
      then float_round1
             (float_mul
                (int_true_div (int (length rs) - int (length (spec_failed_ids rs)))
                   (int (length rs)))
                100)
      else 0)"

definition lacks_overall :: "(string \<times> json) list \<Rightarrow> bool" where
  "lacks_overall vj = (case dict_get vj ''overall'' of None \<Rightarrow> True | Some v \<Rightarrow> \<not> truthy v)"

lemma severity_by_id_find:
  "severity_by_id s = map_option severity (find (\<lambda>c. check_id c = s) STARTER_SESSION_CHECKS)"
  unfolding severity_by_id_def STARTER_SESSION_CHECKS_def mk_check_def
  by simp

lemma severity_by_id_get_hashable:
  "hashable i \<Longrightarrow>
   \<exists>sev. severity_by_id_get i = Inr sev \<and> (sev = Some High \<longleftrightarrow> checklist_severity i = High)"
  by (cases i) (auto simp: checklist_severity_def severity_by_id_find split: option.splits)

lemma severity_by_id_get_unhashable: "\<not> hashable i \<Longrightarrow> severity_by_id_get i = Inl TypeError"
  by (cases i) auto

lemma collect_failed_eq:
  "list_all hashable (spec_failed_ids rs) \<Longrightarrow>
   collect_failed rs (f, h) = Inr (f @ spec_failed_ids rs, h @ spec_high_severity_flags rs)"
proof (induction rs arbitrary: f h)
  case Nil
  then show ?case by (simp add: spec_failed_ids_def spec_high_severity_flags_def)
next
  case (Cons r rs)
  show ?case
  proof (cases "is_fail r")
    case True
    then obtain d where r: "r = JObj d" and st: "dict_get d ''status'' = Some (JStr ''Fail'')"
      by (cases r) auto
    let ?i = "dict_get_default d ''id'' (JStr [])"
    from True r Cons.prems
    have hi: "hashable ?i" and rest: "list_all hashable (spec_failed_ids rs)"
      by (simp_all add: spec_failed_ids_def)
    from severity_by_id_get_hashable[OF hi] obtain sev where
      sev: "severity_by_id_get ?i = Inr sev"
           "sev = Some High \<longleftrightarrow> checklist_severity ?i = High"
      by blast
    show ?thesis
      using Cons.IH[OF rest] r st sev
      by (simp add: spec_failed_ids_def spec_high_severity_flags_def Let_def)
  next
    case False
    with Cons.prems have rest: "list_all hashable (spec_failed_ids rs)"
      by (simp add: spec_failed_ids_def)
    have step: "collect_failed (r # rs) (f, h) = collect_failed rs (f, h)"
      using False by (cases r) auto
    show ?thesis
      using Cons.IH[OF rest] False step
      by (simp add: spec_failed_ids_def spec_high_severity_flags_def)
  qed
qed

text \<open>A failing result whose id cannot be hashed stops the loop.\<close>

lemma collect_failed_unhashable:
  "\<not> list_all hashable (spec_failed_ids rs) \<Longrightarrow> collect_failed rs (f, h) = Inl TypeError"
proof (induction rs arbitrary: f h)
  case Nil
  then show ?case by (simp add: spec_failed_ids_def)
next
  case (Cons r rs)
  show ?case
  proof (cases "is_fail r")
    case True
    then obtain d where r: "r = JObj d" and st: "dict_get d ''status'' = Some (JStr ''Fail'')"
      by (cases r) auto
    let ?i = "dict_get_default d ''id'' (JStr [])"
    show ?thesis
    proof (cases "hashable ?i")
      case False
      from severity_by_id_get_unhashable[OF this] r st show ?thesis
        by (simp add: Let_def)
    next
      case h: True
      with True r Cons.prems have rest: "\<not> list_all hashable (spec_failed_ids rs)"
        by (simp add: spec_failed_ids_def)
      from severity_by_id_get_hashable[OF h] obtain sev where
        "severity_by_id_get ?i = Inr sev" by blast
      with Cons.IH[OF rest] r st show ?thesis
        by (simp add: Let_def)
    qed
  next
    case False
    with Cons.prems have rest: "\<not> list_all hashable (spec_failed_ids rs)"
      by (simp add: spec_failed_ids_def)
    have step: "collect_failed (r # rs) (f, h) = collect_failed rs (f, h)"
      using False by (cases r) auto
    show ?thesis
      using Cons.IH[OF rest] step by simp
  qed
qed

lemma float_round1_zero: "float_round1 0 = 0"
  by (simp add: float_round1_def py_round1_def round_double_def)

lemma calculate_overall_eq:
  assumes "list_all hashable (spec_failed_ids rs)"
  shows "calculate_overall rs =
           Inr [ (''pass_rate'', JFloat (divided_pass_rate rs)),
                 (''failed_ids'', JArr (spec_failed_ids rs)),
                 (''high_severity_flags'', JArr (spec_high_severity_flags rs)),
                 (''has_high_severity_failures'',
                    JBool (spec_high_severity_flags rs \<noteq> [])) ]"
  using collect_failed_eq[OF assms, of "[]" "[]"]
  by (simp add: calculate_overall_def divided_pass_rate_def Let_def float_round1_zero)

text \<open>
  Claim C1, with the pass rate as the handler computes it. When the classifier
  output has no non-empty \<^verbatim>\<open>overall\<close>, its \<^verbatim>\<open>results\<close> is a list and the ids of the
  failing results are hashable values (strings, as the tool schema declares them, or
  numbers, booleans, null), the handler sets \<^verbatim>\<open>overall\<close> to: \<^verbatim>\<open>failed_ids\<close>, the ids of
  the results whose status is \<^verbatim>\<open>Fail\<close>, in order; \<^verbatim>\<open>high_severity_flags\<close>, those of
  them whose checklist item has severity high (an id outside the checklist counts as
  low); \<^verbatim>\<open>pass_rate\<close>, \<open>round((total - failed) / total * 100, 1)\<close> in floating point
  for a non-empty list and \<open>0.0\<close> for the empty one; \<^verbatim>\<open>has_high_severity_failures\<close>,
  whether the flags are non-empty.
\<close>

theorem overall_fallback:
  assumes "lacks_overall validated_json"
      and "dict_get validated_json ''results'' = Some (JArr rs)"
      and "list_all hashable (spec_failed_ids rs)"
  shows "ensure_overall validated_json =
           Inr (dict_set validated_json ''overall''
             (JObj [ (''pass_rate'', JFloat (divided_pass_rate rs)),
                     (''failed_ids'', JArr (spec_failed_ids rs)),
                     (''high_severity_flags'', JArr (spec_high_severity_flags rs)),
                     (''has_high_severity_failures'',
                        JBool (spec_high_severity_flags rs \<noteq> [])) ]))"
proof -
  from assms(1) have c: "dict_get validated_json ''overall'' = None
         \<or> \<not> truthy (dict_get_default validated_json ''overall'' JNull)"
    by (auto simp: lacks_overall_def dict_get_def dict_get_default_def split: option.splits)
  from assms(2) have r: "dict_get_default validated_json ''results'' (JArr []) = JArr rs"
    by (simp add: dict_get_def dict_get_default_def)
  show ?thesis
    unfolding ensure_overall_def using c r calculate_overall_eq[OF assms(3)]
    by simp
qed

text \<open>The triage example of the specification: one failed high-severity check out of
  two gives a pass rate of 50.0.\<close>

definition triage_example :: "json list" where
  "triage_example =
     [ JObj [(''id'', JStr ''call_recording_confirmed''), (''status'', JStr ''Fail'')],
       JObj [(''id'', JStr ''dob_confirmed''), (''status'', JStr ''Competent'')] ]"

theorem overall_fallback_witness:
  "lacks_overall [(''results'', JArr triage_example)]
   \<and> dict_get [(''results'', JArr triage_example)] ''results'' = Some (JArr triage_example)
   \<and> list_all hashable (spec_failed_ids triage_example)
   \<and> ensure_overall [(''results'', JArr triage_example)] =
       Inr [ (''results'', JArr triage_example),
             (''overall'',
              JObj [ (''pass_rate'', JFloat 50),
                     (''failed_ids'', JArr [JStr ''call_recording_confirmed'']),
                     (''high_severity_flags'', JArr [JStr ''call_recording_confirmed'']),
                     (''has_high_severity_failures'', JBool True) ]) ]"
proof -
  have h1: "lacks_overall [(''results'', JArr triage_example)]"
    by (simp add: lacks_overall_def dict_get_def)
  have h2: "dict_get [(''results'', JArr triage_example)] ''results'' = Some (JArr triage_example)"
    by (simp add: dict_get_def)
  have f: "spec_failed_ids triage_example = [JStr ''call_recording_confirmed'']"
    by (simp add: spec_failed_ids_def triage_example_def dict_get_def dict_get_default_def)
  have h3: "list_all hashable (spec_failed_ids triage_example)"
    by (simp add: f)
  have s: "checklist_severity (JStr ''call_recording_confirmed'') = High"
    by (simp add: checklist_severity_def STARTER_SESSION_CHECKS_def mk_check_def)
  have g: "spec_high_severity_flags triage_example = [JStr ''call_recording_confirmed'']"
    by (simp add: spec_high_severity_flags_def f s)
  have p: "divided_pass_rate triage_example = 50"
    by code_simp
  show ?thesis
    using overall_fallback[OF h1 h2 h3] h1 h2 h3
    by (simp add: f g p dict_set_def)
qed

text \<open>
  The claim as stated fails in two ways. With 29 failing results out of 80 the
  specification's formula gives the double nearest 63.8 (\<open>100 * 51 / 80\<close> is exactly
  63.75, a tie that goes to the even tenth), but the handler divides first:
  \<open>51 / 80\<close> rounds to a double just below 0.6375, the product with 100 to one just
  below 63.75, and the stored pass rate is the double nearest 63.7. And a failing
  result whose id is a list makes the lookup of its severity raise.
\<close>

definition eighty_results :: "json list" where
  "eighty_results =
     replicate 29 (JObj [(''id'', JStr ''dob_confirmed''), (''status'', JStr ''Fail'')])
     @ replicate 51 (JObj [(''id'', JStr ''will_confirmed''), (''status'', JStr ''Competent'')])"

theorem overall_fallback_counterexample:
  "fallback_pass_rate [(''results'', JArr eighty_results)]
     = Some (JFloat (round_double (637 / 10)))
   \<and> spec_pass_rate eighty_results = round_double (638 / 10)
   \<and> round_double (637 / 10) \<noteq> round_double (638 / 10)
   \<and> ensure_overall
         [(''results'', JArr [JObj [(''id'', JArr []), (''status'', JStr ''Fail'')]])]
       = Inl TypeError"
proof -
  have 1: "fallback_pass_rate [(''results'', JArr eighty_results)]
             = Some (JFloat (round_double (637 / 10)))"
    by code_simp
  have 2: "spec_pass_rate eighty_results = round_double (638 / 10)"
    by code_simp
  have 3: "round_double (637 / 10) \<noteq> round_double (638 / 10)"
    by code_simp
  have 4: "ensure_overall
         [(''results'', JArr [JObj [(''id'', JArr []), (''status'', JStr ''Fail'')]])]
       = Inl TypeError"
    by code_simp
  show ?thesis
    using 1 2 3 4 by (intro conjI)
qed

subsection \<open>Python strings and numbers\<close>

text \<open>\<^verbatim>\<open>str.isspace\<close> on the code points below 256: tab to carriage return, the four
  separators 28 to 31, the space, NEL (133) and the no-break space (160). The same
  class is \<^verbatim>\<open>\s\<close> of the \<^verbatim>\<open>re\<close> module on \<^verbatim>\<open>str\<close> patterns.\<close>

definition is_space :: "char \<Rightarrow> bool" where
  "is_space c = (let n = (of_char c :: nat)
                 in (9 \<le> n \<and> n \<le> 13) \<or> (28 \<le> n \<and> n \<le> 32) \<or> n = 133 \<or> n = 160)"

text \<open>The decimal digits below 256 (\<^verbatim>\<open>\d\<close>, and what \<^verbatim>\<open>int\<close> and \<^verbatim>\<open>float\<close> read).\<close>

definition is_digit :: "char \<Rightarrow> bool" where
  "is_digit c = (let n = (of_char c :: nat) in 48 \<le> n \<and> n \<le> 57)"

definition digit_val :: "char \<Rightarrow> nat" where
  "digit_val c = of_char c - 48"

text \<open>\<^verbatim>\<open>s.strip()\<close>.\<close>

definition strip :: "string \<Rightarrow> string" where
  "strip s = rev (dropWhile is_space (rev (dropWhile is_space s)))"

text \<open>\<^verbatim>\<open>hay.find(needle)\<close>: the lowest index at which the needle starts, \<open>None\<close> for
  Python's \<open>-1\<close>.\<close>

primrec str_find :: "string \<Rightarrow> string \<Rightarrow> nat option" where
  "str_find needle [] = (if needle = [] then Some 0 else None)"
| "str_find needle (c # cs) =
     (if prefix needle (c # cs) then Some 0 else map_option Suc (str_find needle cs))"

definition first_occurrence :: "string \<Rightarrow> string \<Rightarrow> nat \<Rightarrow> bool" where
  "first_occurrence needle hay p \<longleftrightarrow>
     p \<le> length hay \<and> prefix needle (drop p hay) \<and> (\<forall>j<p. \<not> prefix needle (drop j hay))"

lemma str_find_Some: "str_find n h = Some p \<longleftrightarrow> first_occurrence n h p"
proof (induction h arbitrary: p)
  case Nil
  then show ?case by (auto simp: first_occurrence_def)
next
  case (Cons c cs)
  show ?case
  proof (cases "prefix n (c # cs)")
    case True
    then show ?thesis
      by (auto simp: first_occurrence_def intro: ccontr)
  next
    case False
    have "first_occurrence n (c # cs) p \<longleftrightarrow> (\<exists>q. p = Suc q \<and> first_occurrence n cs q)"
    proof (cases p)
      case 0
      then show ?thesis using False by (simp add: first_occurrence_def)
    next
      case (Suc q)
      have "(\<forall>j<Suc q. \<not> prefix n (drop j (c # cs))) \<longleftrightarrow> (\<forall>j<q. \<not> prefix n (drop j cs))"
        using False by (auto simp: less_Suc_eq_0_disj)
      then show ?thesis using Suc by (simp add: first_occurrence_def)
    qed
    with False Cons.IH show ?thesis by auto
  qed
qed

lemma str_find_None: "str_find n h = None \<longleftrightarrow> (\<forall>p. \<not> first_occurrence n h p)"
  by (metis str_find_Some not_Some_eq)

text \<open>\<^verbatim>\<open>int(s)\<close> on a string: surrounding whitespace is dropped, a sign may lead, then
  decimal digits with single underscores between them; more than 4300 digits are
  refused. \<open>None\<close> is \<^verbatim>\<open>ValueError\<close>.\<close>

fun digits_us :: "string \<Rightarrow> bool" where
  "digits_us [] = False"
| "digits_us [c] = is_digit c"
| "digits_us (c # d # r) =
     (is_digit c \<and> (if d = CHR ''_'' then digits_us r else digits_us (d # r)))"

definition digits_value :: "string \<Rightarrow> nat" where
  "digits_value s = foldl (\<lambda>a c. 10 * a + digit_val c) 0 (filter is_digit s)"

fun split_sign :: "string \<Rightarrow> bool \<times> string" where
  "split_sign [] = (False, [])"
| "split_sign (c # r) =
     (if c = CHR ''-'' then (True, r) else if c = CHR ''+'' then (False, r) else (False, c # r))"

definition py_int :: "string \<Rightarrow> int option" where
  "py_int s =
     (let (neg, r) = split_sign (strip s) in
      if digits_us r \<and> length (filter is_digit r) \<le> 4300
      then Some (if neg then - int (digits_value r) else int (digits_value r))
      else None)"

text \<open>\<^verbatim>\<open>int(x)\<close> on a float truncates towards zero.\<close>

definition py_trunc :: "rat \<Rightarrow> int" where
  "py_trunc q = (if 0 \<le> q then \<lfloor>q\<rfloor> else \<lceil>q\<rceil>)"

text \<open>\<^verbatim>\<open>int(v)\<close> on a decoded JSON value. An infinity raises \<^verbatim>\<open>OverflowError\<close>, NaN
  raises \<^verbatim>\<open>ValueError\<close>.\<close>

fun int_of_json :: "json \<Rightarrow> py_error + int" where
  "int_of_json (JInt n) = Inr n"
| "int_of_json (JBool b) = Inr (if b then 1 else 0)"
| "int_of_json (JFloat q) = Inr (py_trunc q)"
| "int_of_json JInfinity = Inl OverflowError"
| "int_of_json JMinusInfinity = Inl OverflowError"
| "int_of_json JNaN = Inl ValueError"
| "int_of_json (JStr s) = (case py_int s of Some n \<Rightarrow> Inr n | None \<Rightarrow> Inl ValueError)"
| "int_of_json v = Inl TypeError"

text \<open>\<^verbatim>\<open>for x in v\<close>: a list gives its elements, a string its characters, a dictionary
  its keys; nothing else can be iterated.\<close>

fun py_iter :: "json \<Rightarrow> py_error + json list" where
  "py_iter (JArr xs) = Inr xs"
| "py_iter (JStr s) = Inr (map (\<lambda>c. JStr [c]) s)"
| "py_iter (JObj kvs) = Inr (map (\<lambda>kv. JStr (fst kv)) kvs)"
| "py_iter v = Inl TypeError"

subsection \<open>Evidence spans\<close>

text \<open>The \<^verbatim>\<open>except (ValueError, TypeError)\<close> around the two coercions.\<close>

definition caught :: "py_error \<Rightarrow> bool" where
  "caught e \<longleftrightarrow> e = ValueError \<or> e = TypeError"

text \<open>One span of \<^verbatim>\<open>evidence_spans\<close>: kept when it is a list of two elements that both
  pass \<^verbatim>\<open>int\<close>. The \<^verbatim>\<open>ValueError\<close> or \<^verbatim>\<open>TypeError\<close> of a failed coercion is caught and
  the span skipped (\<open>Inr None\<close>); the second element is not looked at when the first
  has failed. Any other exception leaves the loop and the handler.\<close>

fun coerce_span :: "json \<Rightarrow> py_error + (int \<times> int) option" where
  "coerce_span (JArr [a, b]) =
     (case int_of_json a of
        Inl e \<Rightarrow> if caught e then Inr None else Inl e
      | Inr x \<Rightarrow>
          (case int_of_json b of
             Inl e \<Rightarrow> if caught e then Inr None else Inl e
           | Inr y \<Rightarrow> Inr (Some (x, y))))"
| "coerce_span v = Inr None"

text \<open>The loop \<^verbatim>\<open>for span in evidence_spans\<close> that builds \<^verbatim>\<open>valid_spans\<close>.\<close>

fun coerce_spans :: "json list \<Rightarrow> py_error + (int \<times> int) list" where
  "coerce_spans [] = Inr []"
| "coerce_spans (v # rest) =
     (case coerce_span v of
        Inl e \<Rightarrow> Inl e
      | Inr kept \<Rightarrow>
          (case coerce_spans rest of
             Inl e \<Rightarrow> Inl e
           | Inr valid \<Rightarrow> Inr ((case kept of None \<Rightarrow> [] | Some sp \<Rightarrow> [sp]) @ valid)))"

definition span_json :: "int \<times> int \<Rightarrow> json" where
  "span_json sp = JArr [JInt (fst sp), JInt (snd sp)]"

text \<open>The first half of the loop body: \<^verbatim>\<open>if evidence_spans:\<close> filters the supplied
  spans and stores them back. The result is the updated item and the local
  \<^verbatim>\<open>evidence_spans\<close>.\<close>

definition filter_spans ::
  "(string \<times> json) list \<Rightarrow> py_error + (string \<times> json) list \<times> json" where
  "filter_spans result_item =
     (let ev_spans = dict_get_default result_item ''evidence_spans'' (JArr []) in
      if truthy ev_spans then
        (case py_iter ev_spans of
           Inl e \<Rightarrow> Inl e
         | Inr spans \<Rightarrow>
             (case coerce_spans spans of
                Inl e \<Rightarrow> Inl e
              | Inr valid \<Rightarrow>
                  (let valid_spans = JArr (map span_json valid)
                   in Inr (dict_set result_item ''evidence_spans'' valid_spans, valid_spans))))
      else Inr (result_item, ev_spans))"

text \<open>The text search: the whole quote first, then its first 50 characters.\<close>

definition locate_quote :: "string \<Rightarrow> string \<Rightarrow> json" where
  "locate_quote full_transcript clean_quote =
     (case str_find clean_quote full_transcript of
        Some pos \<Rightarrow> JArr [span_json (int pos, int pos + int (length clean_quote))]
      | None \<Rightarrow>
          (let short_quote = take 50 clean_quote in
           case str_find short_quote full_transcript of
             Some pos \<Rightarrow> JArr [span_json (int pos, int pos + int (length clean_quote))]
           | None \<Rightarrow> JArr []))"

text \<open>The loop body for one \<^verbatim>\<open>result_item\<close> that is a dictionary. A truthy quote that
  is not a string has no \<^verbatim>\<open>strip\<close>.\<close>

definition resolve_evidence ::
  "string \<Rightarrow> (string \<times> json) list \<Rightarrow> py_error + (string \<times> json) list" where
  "resolve_evidence full_transcript result_item0 =
     (let ev_quote = dict_get_default result_item0 ''evidence_quote'' (JStr '''') in
      case filter_spans result_item0 of
        Inl e \<Rightarrow> Inl e
      | Inr (result_item, ev_spans) \<Rightarrow>
          if truthy ev_quote \<and> \<not> truthy ev_spans then
            (case ev_quote of
               JStr q \<Rightarrow>
                 (let clean_quote = strip q in
                  if clean_quote \<noteq> []
                  then Inr (dict_set result_item ''evidence_spans''
                              (locate_quote full_transcript clean_quote))
                  else Inr result_item)
             | _ \<Rightarrow> Inl AttributeError)
          else Inr result_item)"

text \<open>\<^verbatim>\<open>for result_item in validated_json["results"]: if isinstance(result_item, dict)\<close>.\<close>

fun resolve_item :: "string \<Rightarrow> json \<Rightarrow> py_error + json" where
  "resolve_item full_transcript (JObj result_item) =
     (case resolve_evidence full_transcript result_item of
        Inl e \<Rightarrow> Inl e
      | Inr item \<Rightarrow> Inr (JObj item))"
| "resolve_item full_transcript v = Inr v"

fun resolve_all :: "string \<Rightarrow> json list \<Rightarrow> py_error + json list" where
  "resolve_all full_transcript [] = Inr []"
| "resolve_all full_transcript (r # rest) =
     (case resolve_item full_transcript r of
        Inl e \<Rightarrow> Inl e
      | Inr r' \<Rightarrow>
          (case resolve_all full_transcript rest of
             Inl e \<Rightarrow> Inl e
           | Inr rest' \<Rightarrow> Inr (r' # rest')))"

definition clean_evidence_spans ::
  "string \<Rightarrow> (string \<times> json) list \<Rightarrow> py_error + (string \<times> json) list" where
  "clean_evidence_spans full_transcript validated_json =
     (case dict_get validated_json ''results'' of
        Some (JArr rs) \<Rightarrow>
          (case resolve_all full_transcript rs of
             Inl e \<Rightarrow> Inl e
           | Inr rs' \<Rightarrow> Inr (dict_set validated_json ''results'' (JArr rs')))
      | _ \<Rightarrow> Inr validated_json)"

text \<open>The loop treats every result on its own.\<close>

lemma resolve_all_pointwise:
  "resolve_all t rs = Inr rs' \<longleftrightarrow> list_all2 (\<lambda>r r'. resolve_item t r = Inr r') rs rs'"
proof (induction rs arbitrary: rs')
  case Nil
  then show ?case by auto
next
  case (Cons a rs)
  have "resolve_all t (a # rs) = Inr rs' \<longleftrightarrow>
          (\<exists>r' rest'. rs' = r' # rest' \<and> resolve_item t a = Inr r'
                        \<and> resolve_all t rs = Inr rest')"
    by (auto split: sum.splits)
  then show ?case
    by (simp add: Cons.IH list_all2_Cons1)
qed

subsubsection \<open>Which spans are kept\<close>

text \<open>The values \<^verbatim>\<open>int\<close> accepts, and what it makes of them: an integer is itself, a
  boolean 0 or 1, a finite float its integral part, a string the integer it spells.\<close>

lemma int_of_json_accepts:
  "int_of_json v = Inr n \<longleftrightarrow>
     v = JInt n \<or> (\<exists>b. v = JBool b \<and> n = (if b then 1 else 0))
     \<or> (\<exists>q. v = JFloat q \<and> n = py_trunc q) \<or> (\<exists>s. v = JStr s \<and> py_int s = Some n)"
  by (cases v) (auto split: option.splits)

text \<open>The values on which \<^verbatim>\<open>int\<close> raises an exception other than the two that are
  caught: the two infinities.\<close>

lemma int_of_json_uncaught:
  "(\<exists>e. int_of_json v = Inl e \<and> \<not> caught e) \<longleftrightarrow> v = JInfinity \<or> v = JMinusInfinity"
  by (cases v) (auto simp: caught_def split: option.splits)

text \<open>A span is kept exactly when it is a list of two values that \<^verbatim>\<open>int\<close> accepts, and
  it is kept as the pair of the two integers.\<close>

lemma coerce_span_kept:
  "coerce_span v = Inr (Some (x, y)) \<longleftrightarrow>
     (\<exists>a b. v = JArr [a, b] \<and> int_of_json a = Inr x \<and> int_of_json b = Inr y)"
proof (cases "\<exists>a b. v = JArr [a, b]")
  case True
  then obtain a b where v: "v = JArr [a, b]" by blast
  show ?thesis
    unfolding v by (auto split: sum.splits)
next
  case False
  then have "coerce_span v = Inr None"
    by (induction v rule: coerce_span.induct) auto
  with False show ?thesis by auto
qed

lemma coerce_span_integers: "coerce_span (JArr [JInt x, JInt y]) = Inr (Some (x, y))"
  by simp

text \<open>A pair of integers is kept whatever its values: no bound of the transcript is
  consulted.\<close>

lemma coerce_spans_integers:
  "coerce_spans (map (\<lambda>sp. JArr [JInt (fst sp), JInt (snd sp)]) sps) = Inr sps"
  by (induction sps) auto

text \<open>The loop raises exactly when, in some span of two elements, an infinity stands
  first, or stands second behind a value that \<^verbatim>\<open>int\<close> accepts.\<close>

definition overflowing :: "json \<Rightarrow> bool" where
  "overflowing v \<longleftrightarrow>
     (\<exists>a b. v = JArr [a, b] \<and>
        (a \<in> {JInfinity, JMinusInfinity}
         \<or> (\<exists>x. int_of_json a = Inr x) \<and> b \<in> {JInfinity, JMinusInfinity}))"

lemma coerce_span_raises: "(\<exists>e. coerce_span v = Inl e) \<longleftrightarrow> overflowing v"
proof (cases "\<exists>a b. v = JArr [a, b]")
  case True
  then obtain a b where v: "v = JArr [a, b]" by blast
  have a: "(\<exists>e. int_of_json a = Inl e \<and> \<not> caught e) \<longleftrightarrow> a = JInfinity \<or> a = JMinusInfinity"
   and b: "(\<exists>e. int_of_json b = Inl e \<and> \<not> caught e) \<longleftrightarrow> b = JInfinity \<or> b = JMinusInfinity"
    by (rule int_of_json_uncaught)+
  show ?thesis
    unfolding v overflowing_def using a b
    by (cases "int_of_json a"; cases "int_of_json b") (auto split: if_splits)
next
  case False
  then have "coerce_span v = Inr None"
    by (induction v rule: coerce_span.induct) auto
  with False show ?thesis by (auto simp: overflowing_def)
qed

lemma coerce_span_error: "coerce_span v = Inl e \<Longrightarrow> e = OverflowError"
proof (cases "\<exists>a b. v = JArr [a, b]")
  case True
  assume e: "coerce_span v = Inl e"
  from True obtain a b where v: "v = JArr [a, b]" by blast
  have "int_of_json w = Inl e' \<Longrightarrow> \<not> caught e' \<Longrightarrow> e' = OverflowError" for w e'
    by (cases w) (auto simp: caught_def split: option.splits)
  with e show ?thesis
    unfolding v by (auto split: sum.splits if_splits)
next
  case False
  assume e: "coerce_span v = Inl e"
  from False have "coerce_span v = Inr None"
    by (induction v rule: coerce_span.induct) auto
  with e show ?thesis by simp
qed

lemma coerce_spans_total:
  "coerce_spans xs = (if list_ex overflowing xs then Inl OverflowError
                      else Inr (List.map_filter (\<lambda>v. case coerce_span v of
                                                      Inr kept \<Rightarrow> kept | Inl e \<Rightarrow> None) xs))"
proof (induction xs)
  case Nil
  then show ?case by (simp add: List.map_filter_simps)
next
  case (Cons v xs)
  show ?case
  proof (cases "coerce_span v")
    case (Inl e)
    then have "overflowing v" using coerce_span_raises by blast
    with Inl coerce_span_error[OF Inl] show ?thesis by simp
  next
    case (Inr kept)
    then have "\<not> overflowing v" using coerce_span_raises[of v] by auto
    with Inr Cons.IH show ?thesis
      by (cases kept) (auto simp: List.map_filter_simps)
  qed
qed

lemma filter_spans_array:
  assumes "dict_get_default item ''evidence_spans'' (JArr []) = JArr xs"
      and "coerce_spans xs = Inr kept"
  shows "filter_spans item =
           Inr (if xs \<noteq> []
                then (dict_set item ''evidence_spans'' (JArr (map span_json kept)),
                      JArr (map span_json kept))
                else (item, JArr []))"
  using assms by (simp add: filter_spans_def Let_def)

text \<open>
  The policy of the clean-up, for a result whose \<^verbatim>\<open>evidence_spans\<close> is a list \<open>xs\<close> (or
  absent), whose \<^verbatim>\<open>evidence_quote\<close> is a string \<open>q\<close> (or absent), and on which the
  coercion of the spans does not raise:
  \<^item> if some supplied span is a pair of two values that \<^verbatim>\<open>int\<close> accepts, the coerced
    pairs are kept, the others dropped, and the transcript is not consulted;
  \<^item> otherwise, if the stripped quote is non-empty and \<^verbatim>\<open>find\<close> locates it at \<open>p\<close>, the
    spans become \<open>[[p, p + len(stripped quote)]]\<close>;
  \<^item> if it is not found but its first 50 characters are, at \<open>p\<close>, the spans become
    \<open>[[p, p + len(stripped quote)]]\<close>: the length is that of the whole quote;
  \<^item> if neither is found, the spans become the empty list.
  By \<open>str_find_Some\<close> the position \<open>p\<close> is that of the first occurrence; by
  \<open>coerce_span_kept\<close> and \<open>coerce_spans_total\<close> the kept pairs are those of the spans of
  two coercible values.
\<close>

lemma evidence_span_policy:
  assumes "dict_get_default item ''evidence_spans'' (JArr []) = JArr xs"
      and "dict_get_default item ''evidence_quote'' (JStr []) = JStr q"
      and "coerce_spans xs = Inr kept"
  shows
    "(kept \<noteq> [] \<longrightarrow>
        resolve_evidence full_transcript item =
          Inr (dict_set item ''evidence_spans'' (JArr (map span_json kept))))
   \<and> (kept = [] \<and> strip q \<noteq> [] \<longrightarrow>
        (\<forall>p. str_find (strip q) full_transcript = Some p \<longrightarrow>
           resolve_evidence full_transcript item =
             Inr (dict_set item ''evidence_spans''
                    (JArr [JArr [JInt (int p), JInt (int p + int (length (strip q)))]])))
      \<and> (str_find (strip q) full_transcript = None \<longrightarrow>
           (\<forall>p. str_find (take 50 (strip q)) full_transcript = Some p \<longrightarrow>
              resolve_evidence full_transcript item =
                Inr (dict_set item ''evidence_spans''
                       (JArr [JArr [JInt (int p), JInt (int p + int (length (strip q)))]])))
         \<and> (str_find (take 50 (strip q)) full_transcript = None \<longrightarrow>
              resolve_evidence full_transcript item =
                Inr (dict_set item ''evidence_spans'' (JArr [])))))"
proof -
  have kept: "resolve_evidence full_transcript item =
                Inr (dict_set item ''evidence_spans'' (JArr (map span_json kept)))"
    if "kept \<noteq> []"
  proof -
    from that assms(3) have "xs \<noteq> []" by auto
    with that show ?thesis
      by (simp add: resolve_evidence_def filter_spans_array[OF assms(1,3)] assms(2))
  qed
  have search: "resolve_evidence full_transcript item =
                  Inr (dict_set item ''evidence_spans''
                         (locate_quote full_transcript (strip q)))"
    if "kept = []" "strip q \<noteq> []"
  proof -
    from that(2) have "q \<noteq> []" by (auto simp: strip_def)
    with that show ?thesis
      by (simp add: resolve_evidence_def filter_spans_array[OF assms(1,3)] assms(2)
            dict_set_def Let_def)
  qed
  show ?thesis
    using kept search
    by (auto simp: locate_quote_def span_json_def Let_def)
qed

text \<open>An infinity in a span ends the clean-up, and with it the handler.\<close>

lemma resolve_evidence_overflow:
  assumes "dict_get_default item ''evidence_spans'' (JArr []) = JArr xs"
      and "list_ex overflowing xs"
  shows "resolve_evidence full_transcript item = Inl OverflowError"
proof -
  from assms(2) have "xs \<noteq> []" by auto
  with assms show ?thesis
    by (simp add: resolve_evidence_def filter_spans_def coerce_spans_total Let_def)
qed

text \<open>Examples. A result with a quote and one supplied span: a span of one element
  is dropped and the quote is located at offset 12; so is a span whose first element
  is not a number; a span of a float and a numeric string is kept as \<open>[3, 9]\<close> and
  the transcript is not searched.\<close>

definition evidence_example :: "json list \<Rightarrow> (string \<times> json) list" where
  "evidence_example spans =
     [ (''id'', JStr ''dob_confirmed''),
       (''evidence_quote'', JStr '' date of birth ''),
       (''evidence_spans'', JArr spans) ]"

lemma evidence_span_examples:
  "resolve_evidence ''COACH: your date of birth please'' (evidence_example [JArr [JInt 1]])
     = Inr (evidence_example [JArr [JInt 12, JInt 25]])
   \<and> resolve_evidence ''COACH: your date of birth please''
         (evidence_example [JArr [JStr ''x'', JInt 5]])
       = Inr (evidence_example [JArr [JInt 12, JInt 25]])
   \<and> resolve_evidence ''COACH: your date of birth please''
         (evidence_example [JArr [JFloat (7 / 2), JStr '' 9 ''], JArr [JNull, JInt 4]])
       = Inr (evidence_example [JArr [JInt 3, JInt 9]])"
proof -
  let ?t = "''COACH: your date of birth please''"
  have q: "dict_get_default (evidence_example xs) ''evidence_quote'' (JStr [])
             = JStr '' date of birth ''"
    and s: "dict_get_default (evidence_example xs) ''evidence_spans'' (JArr []) = JArr xs"
    and u: "dict_set (evidence_example xs) ''evidence_spans'' (JArr ys) = evidence_example ys"
    for xs ys
    by (simp_all add: evidence_example_def dict_get_default_def dict_set_def)
  have st: "strip '' date of birth '' = ''date of birth''"
    by (simp add: strip_def is_space_def)
  have f: "str_find ''date of birth'' ?t = Some 12"
    by simp
  have c1: "coerce_spans [JArr [JInt 1]] = Inr []"
    by simp
  have c2: "coerce_spans [JArr [JStr ''x'', JInt 5]] = Inr []"
    by code_simp
  have c3: "coerce_spans [JArr [JFloat (7 / 2), JStr '' 9 ''], JArr [JNull, JInt 4]]
              = Inr [(3, 9)]"
    by code_simp
  have 1: "resolve_evidence ?t (evidence_example [JArr [JInt 1]])
             = Inr (evidence_example [JArr [JInt 12, JInt 25]])"
    using evidence_span_policy[OF s q c1, of ?t] st f by (simp add: u)
  have 2: "resolve_evidence ?t (evidence_example [JArr [JStr ''x'', JInt 5]])
             = Inr (evidence_example [JArr [JInt 12, JInt 25]])"
    using evidence_span_policy[OF s q c2, of ?t] st f by (simp add: u)
  have 3: "resolve_evidence ?t
             (evidence_example [JArr [JFloat (7 / 2), JStr '' 9 ''], JArr [JNull, JInt 4]])
             = Inr (evidence_example [JArr [JInt 3, JInt 9]])"
    using evidence_span_policy[OF s q c3, of ?t] by (simp add: u span_json_def)
  show ?thesis
    using 1 2 3 by (intro conjI)
qed

text \<open>
  Claim C4 on a span that holds an infinity. The classifier's tool input is decoded
  JSON, and the number \<^verbatim>\<open>1e999\<close> decodes to the float infinity. The pair
  \<^verbatim>\<open>[1e999, 5]\<close> is not a pair of integer-coercible values, so by the claim (and by
  the comment \<^verbatim>\<open>Skip invalid spans\<close>) it is dropped and the quote is searched, as for
  the pair \<^verbatim>\<open>["x", 5]\<close> above. But \<^verbatim>\<open>int\<close> of an infinity raises \<^verbatim>\<open>OverflowError\<close>, which
  \<^verbatim>\<open>except (ValueError, TypeError)\<close> does not catch: the clean-up raises, for the
  result and for the whole payload.
\<close>

theorem evidence_span_overflow:
  "resolve_evidence ''COACH: your date of birth please''
       (evidence_example [JArr [JInfinity, JInt 5]])
     = Inl OverflowError
   \<and> clean_evidence_spans ''COACH: your date of birth please''
         [(''results'', JArr [JObj (evidence_example [JArr [JInfinity, JInt 5]])])]
       = Inl OverflowError"
proof -
  have 1: "resolve_evidence ''COACH: your date of birth please''
             (evidence_example [JArr [JInfinity, JInt 5]]) = Inl OverflowError"
    by code_simp
  have 2: "clean_evidence_spans ''COACH: your date of birth please''
             [(''results'', JArr [JObj (evidence_example [JArr [JInfinity, JInt 5]])])]
             = Inl OverflowError"
    by code_simp
  show ?thesis
    using 1 2 by (intro conjI)
qed

subsection \<open>Floats, and reading them from text\<close>

text \<open>A Python float: a finite value (idealised as a rational), an infinity or NaN.\<close>

datatype pyfloat = Fin rat | PInf | NInf | NaN

text \<open>Addition, negation and subtraction of floats.\<close>

fun fadd :: "pyfloat \<Rightarrow> pyfloat \<Rightarrow> pyfloat" where
  "fadd (Fin a) (Fin b) = Fin (a + b)"
| "fadd NaN y = NaN"
| "fadd x NaN = NaN"
| "fadd PInf NInf = NaN"
| "fadd NInf PInf = NaN"
| "fadd PInf y = PInf"
| "fadd x PInf = PInf"
| "fadd NInf y = NInf"
| "fadd x NInf = NInf"

fun fneg :: "pyfloat \<Rightarrow> pyfloat" where
  "fneg (Fin a) = Fin (- a)"
| "fneg PInf = NInf"
| "fneg NInf = PInf"
| "fneg NaN = NaN"

definition fsub :: "pyfloat \<Rightarrow> pyfloat \<Rightarrow> pyfloat" where
  "fsub x y = fadd x (fneg y)"

text \<open>The conversion of an \<^verbatim>\<open>int\<close> operand of a mixed sum to a float: an integer that
  rounds beyond the largest double raises.\<close>

definition float_of_int :: "int \<Rightarrow> py_error + pyfloat" where
  "float_of_int n =
     (if \<bar>n\<bar> \<ge> 2 ^ 1024 - 2 ^ 970 then Inl OverflowError else Inr (Fin (of_int n)))"

text \<open>\<^verbatim>\<open>str.lower\<close> on the code points below 256: the letters A to Z and the accented
  capitals 192 to 222 (but for the multiplication sign 215) move up by 32.\<close>

definition to_lower :: "char \<Rightarrow> char" where
  "to_lower c =
     (let n = (of_char c :: nat)
      in if (65 \<le> n \<and> n \<le> 90) \<or> (192 \<le> n \<and> n \<le> 214) \<or> (216 \<le> n \<and> n \<le> 222)
         then char_of (n + 32) else c)"

definition lower :: "string \<Rightarrow> string" where
  "lower s = map to_lower s"

text \<open>\<^verbatim>\<open>float(s)\<close> on a string. Whitespace around is dropped; an underscore may stand
  between two digits only and is removed; then a sign may lead, followed by
  \<^verbatim>\<open>inf\<close>, \<^verbatim>\<open>infinity\<close> or \<^verbatim>\<open>nan\<close> in any case, or by a decimal number: digits with
  an optional point, at least one digit in all, and an optional exponent. \<open>None\<close> is
  \<^verbatim>\<open>ValueError\<close>.\<close>

fun strip_underscores :: "string \<Rightarrow> char \<Rightarrow> string option" where
  "strip_underscores [] prev = (if prev = CHR ''_'' then None else Some [])"
| "strip_underscores (c # r) prev =
     (if c = CHR ''_''
      then (if is_digit prev then strip_underscores r c else None)
      else if prev = CHR ''_'' \<and> \<not> is_digit c then None
      else map_option ((#) c) (strip_underscores r c))"

definition pow10 :: "int \<Rightarrow> rat" where
  "pow10 e = (if 0 \<le> e then 10 ^ nat e else 1 / 10 ^ nat (- e))"

definition parse_exponent :: "string \<Rightarrow> int option" where
  "parse_exponent r =
     (case r of
        [] \<Rightarrow> Some 0
      | c # r' \<Rightarrow>
          if c = CHR ''e'' \<or> c = CHR ''E'' then
            (let (neg, ds) = split_sign r' in
             if ds \<noteq> [] \<and> list_all is_digit ds
             then Some (if neg then - int (digits_value ds) else int (digits_value ds))
             else None)
          else None)"

definition parse_decimal :: "string \<Rightarrow> rat option" where
  "parse_decimal r =
     (let ip = takeWhile is_digit r; r1 = dropWhile is_digit r;
          (fp, r2) = (case r1 of
                        c # r1' \<Rightarrow> if c = CHR ''.''
                                   then (takeWhile is_digit r1', dropWhile is_digit r1')
                                   else ([], r1)
                      | [] \<Rightarrow> ([], []))
      in if ip = [] \<and> fp = [] then None
         else (case parse_exponent r2 of
                 None \<Rightarrow> None
               | Some e \<Rightarrow>
                   Some ((of_nat (digits_value ip) + of_nat (digits_value fp) / 10 ^ length fp)
                         * pow10 e)))"

definition py_float :: "string \<Rightarrow> pyfloat option" where
  "py_float s =
     (case strip_underscores (strip s) (CHR 0x00) of
        None \<Rightarrow> None
      | Some u \<Rightarrow>
          (let (neg, r) = split_sign u in
           if lower r = ''inf'' \<or> lower r = ''infinity'' then Some (if neg then NInf else PInf)
           else if lower r = ''nan'' then Some NaN
           else (case parse_decimal r of
                   None \<Rightarrow> None
                 | Some q \<Rightarrow> Some (Fin (if neg then - q else q)))))"

text \<open>\<^verbatim>\<open>s.split(sep)\<close> for a separator of one character, and \<^verbatim>\<open>s.replace(old, new)\<close>
  for single characters.\<close>

primrec split_on :: "char \<Rightarrow> string \<Rightarrow> string list" where
  "split_on sep [] = [[]]"
| "split_on sep (x # xs) =
     (if x = sep then [] # split_on sep xs
      else (case split_on sep xs of p # ps \<Rightarrow> (x # p) # ps | [] \<Rightarrow> [[x]]))"

definition replace_char :: "char \<Rightarrow> char \<Rightarrow> string \<Rightarrow> string" where
  "replace_char old new s = map (\<lambda>c. if c = old then new else c) s"

subsection \<open>Caption timestamps\<close>

text \<open>The sum \<^verbatim>\<open>whole + float(s)\<close> that ends both branches of \<^verbatim>\<open>parse_timestamp\<close>: the
  integer part is converted to a float for the addition.\<close>

definition seconds_of :: "int \<Rightarrow> pyfloat \<Rightarrow> py_error + pyfloat" where
  "seconds_of whole s = (case float_of_int whole of Inl e \<Rightarrow> Inl e | Inr w \<Rightarrow> Inr (fadd w s))"

text \<open>\<^verbatim>\<open>parse_timestamp\<close> of \<^verbatim>\<open>extract_metrics/app.py\<close>. The three conversions are
  evaluated from left to right and none is guarded.\<close>

definition parse_timestamp :: "string \<Rightarrow> py_error + pyfloat" where
  "parse_timestamp ts0 =
     (let ts = strip (replace_char (CHR '','') (CHR ''.'') ts0);
          parts = split_on (CHR '':'') ts
      in case parts of
           [h, m, s] \<Rightarrow>
             (case py_int h of None \<Rightarrow> Inl ValueError | Some hv \<Rightarrow>
              case py_int m of None \<Rightarrow> Inl ValueError | Some mv \<Rightarrow>
              case py_float s of None \<Rightarrow> Inl ValueError | Some sv \<Rightarrow>
                seconds_of (hv * 3600 + mv * 60) sv)
         | [m, s] \<Rightarrow>
             (case py_int m of None \<Rightarrow> Inl ValueError | Some mv \<Rightarrow>
              case py_float s of None \<Rightarrow> Inl ValueError | Some sv \<Rightarrow>
                seconds_of (mv * 60) sv)
         | _ \<Rightarrow> Inr (Fin 0))"

text \<open>A timestamp in the shape the cue pattern accepts: one or two digits of hours,
  two of minutes, two of seconds, a point or a comma, and at least one digit of
  fraction.\<close>

record timestamp =
  hh :: string
  mm :: string
  ss :: string
  sep :: char
  frac :: string

definition all_digits :: "string \<Rightarrow> bool" where
  "all_digits s = list_all is_digit s"

definition wf_timestamp :: "timestamp \<Rightarrow> bool" where
  "wf_timestamp t \<longleftrightarrow>
     (length (hh t) = 1 \<or> length (hh t) = 2) \<and> all_digits (hh t)
     \<and> length (mm t) = 2 \<and> all_digits (mm t)
     \<and> length (ss t) = 2 \<and> all_digits (ss t)
     \<and> (sep t = CHR ''.'' \<or> sep t = CHR '','')
     \<and> frac t \<noteq> [] \<and> all_digits (frac t)"

definition render_ts :: "timestamp \<Rightarrow> string" where
  "render_ts t = hh t @ '':'' @ mm t @ '':'' @ ss t @ [sep t] @ frac t"

definition ts_seconds :: "timestamp \<Rightarrow> rat" where
  "ts_seconds t =
     of_nat (digits_value (hh t)) * 3600 + of_nat (digits_value (mm t)) * 60
     + of_nat (digits_value (ss t)) + of_nat (digits_value (frac t)) / 10 ^ length (frac t)"

lemma is_digit_chars:
  assumes "is_digit c"
  shows "\<not> is_space c" "c \<noteq> CHR '':''" "c \<noteq> CHR '',''" "c \<noteq> CHR ''.''" "c \<noteq> CHR ''_''"
        "c \<noteq> CHR ''+''" "c \<noteq> CHR ''-''" "c \<noteq> CHR ''e''" "c \<noteq> CHR ''E''"
  using assms by (auto simp: is_digit_def is_space_def Let_def)

lemma strip_id:
  assumes "s \<noteq> []" "\<not> is_space (hd s)" "\<not> is_space (last s)"
  shows "strip s = s"
proof -
  from assms have 1: "dropWhile is_space s = s" by (cases s) auto
  from assms have "rev s \<noteq> []" "\<not> is_space (hd (rev s))" by (auto simp: hd_rev)
  then have 2: "dropWhile is_space (rev s) = rev s" by (cases "rev s") auto
  show ?thesis by (simp add: strip_def 1 2)
qed

lemma split_on_none: "c \<notin> set a \<Longrightarrow> split_on c a = [a]"
  by (induction a) auto

lemma split_on_app: "c \<notin> set a \<Longrightarrow> split_on c (a @ c # b) = a # split_on c b"
  by (induction a) auto

lemma digits_us_all: "s \<noteq> [] \<Longrightarrow> list_all is_digit s \<Longrightarrow> digits_us s"
  by (induction s rule: digits_us.induct) (auto dest: is_digit_chars)

lemma all_digits_D: "all_digits s \<Longrightarrow> c \<in> set s \<Longrightarrow> is_digit c"
  by (simp add: all_digits_def list_all_iff)

lemma py_int_digits:
  assumes "s \<noteq> []" "all_digits s" "length s \<le> 4300"
  shows "py_int s = Some (int (digits_value s))"
proof -
  from assms have d: "is_digit (hd s)" "is_digit (last s)"
    by (auto intro: all_digits_D)
  then have st: "strip s = s"
    using assms(1) by (auto intro!: strip_id dest: is_digit_chars)
  obtain c r where s: "s = c # r" using assms(1) by (cases s) auto
  with d have sg: "split_sign s = (False, s)"
    by (auto dest: is_digit_chars)
  have f: "filter is_digit s = s"
    using assms(2) by (simp add: all_digits_def list_all_iff)
  show ?thesis
    using digits_us_all[OF assms(1)] assms(2,3)
    by (simp add: py_int_def st sg f all_digits_def)
qed

lemma strip_underscores_none:
  "CHR ''_'' \<notin> set s \<Longrightarrow> prev \<noteq> CHR ''_'' \<Longrightarrow> strip_underscores s prev = Some s"
  by (induction s arbitrary: prev) auto

lemma takeWhile_digits_app:
  "all_digits a \<Longrightarrow> \<not> is_digit c \<Longrightarrow> takeWhile is_digit (a @ c # r) = a"
  by (simp add: all_digits_def list_all_iff takeWhile_append)

lemma dropWhile_digits_app:
  "all_digits a \<Longrightarrow> \<not> is_digit c \<Longrightarrow> dropWhile is_digit (a @ c # r) = c # r"
  by (simp add: all_digits_def list_all_iff dropWhile_append)

lemma takeWhile_all: "all_digits a \<Longrightarrow> takeWhile is_digit a = a"
  by (simp add: all_digits_def list_all_iff)

lemma dropWhile_all: "all_digits a \<Longrightarrow> dropWhile is_digit a = []"
  by (simp add: all_digits_def list_all_iff)

lemma not_digit_dot: "\<not> is_digit (CHR ''.'')"
  by (simp add: is_digit_def)

lemma lower_digit_head:
  assumes "is_digit c"
  shows "lower (c # r) \<noteq> ''inf''" "lower (c # r) \<noteq> ''infinity''" "lower (c # r) \<noteq> ''nan''"
  using assms by (auto simp: lower_def to_lower_def is_digit_def Let_def)

lemma py_float_decimal:
  assumes "a \<noteq> []" "all_digits a" "all_digits f"
  shows "py_float (a @ CHR ''.'' # f)
           = Some (Fin (of_nat (digits_value a) + of_nat (digits_value f) / 10 ^ length f))"
proof -
  let ?s = "a @ CHR ''.'' # f"
  obtain c r where a: "a = c # r" using assms(1) by (cases a) auto
  have dc: "is_digit c" using assms(2) a by (simp add: all_digits_def)
  have lastd: "\<not> is_space (last ?s)"
    using assms(3) by (cases f rule: rev_cases) (auto simp: is_space_def all_digits_def dest: is_digit_chars)
  have st: "strip ?s = ?s"
    using dc a lastd by (intro strip_id) (auto dest: is_digit_chars)
  have nu: "CHR ''_'' \<notin> set ?s"
    using assms(2,3) by (auto dest: all_digits_D is_digit_chars)
  have su: "strip_underscores ?s (CHR 0x00) = Some ?s"
    by (rule strip_underscores_none[OF nu]) simp
  have sg: "split_sign ?s = (False, ?s)"
    using dc a by (auto dest: is_digit_chars)
  have lw: "lower ?s \<noteq> ''inf''" "lower ?s \<noteq> ''infinity''" "lower ?s \<noteq> ''nan''"
    using lower_digit_head[OF dc] a by simp_all
  have pd: "parse_decimal ?s
              = Some (of_nat (digits_value a) + of_nat (digits_value f) / 10 ^ length f)"
    using assms
    by (simp add: parse_decimal_def Let_def takeWhile_digits_app dropWhile_digits_app
          not_digit_dot takeWhile_all dropWhile_all parse_exponent_def pow10_def)
  show ?thesis
    by (simp add: py_float_def st su sg lw pd)
qed

lemma float_of_int_small: "\<bar>n\<bar> < 1000000 \<Longrightarrow> float_of_int n = Inr (Fin (of_int n))"
proof -
  have "(1000000::int) \<le> 2 ^ 20" by simp
  also have "(2::int) ^ 20 \<le> 2 ^ 970" by (rule power_increasing) simp_all
  finally have a: "(1000000::int) \<le> 2 ^ 970" .
  have "(2::int) ^ 970 + 2 ^ 970 \<le> 2 ^ 1024"
  proof -
    have "(2::int) ^ 970 + 2 ^ 970 = 2 ^ 971" by simp
    also have "\<dots> \<le> 2 ^ 1024" by (rule power_increasing) simp_all
    finally show ?thesis .
  qed
  with a show "\<bar>n\<bar> < 1000000 \<Longrightarrow> ?thesis"
    by (simp add: float_of_int_def)
qed

lemma digits_value_snoc:
  "is_digit c \<Longrightarrow> digits_value (s @ [c]) = 10 * digits_value s + digit_val c"
  by (simp add: digits_value_def)

lemma digit_val_le: "is_digit c \<Longrightarrow> digit_val c \<le> 9"
  by (auto simp: is_digit_def digit_val_def Let_def)

lemma digits_value_bound: "all_digits s \<Longrightarrow> digits_value s < 10 ^ length s"
proof (induction s rule: rev_induct)
  case Nil
  then show ?case by (simp add: digits_value_def)
next
  case (snoc c s)
  then have d: "is_digit c" and a: "all_digits s" by (simp_all add: all_digits_def)
  from snoc.IH[OF a] digit_val_le[OF d] show ?case
    by (simp add: digits_value_snoc[OF d])
qed

lemma replace_char_none: "old \<notin> set s \<Longrightarrow> replace_char old new s = s"
  by (induction s) (auto simp: replace_char_def)

lemma replace_char_app: "replace_char old new (a @ b) = replace_char old new a @ replace_char old new b"
  by (simp add: replace_char_def)

lemma replace_char_Cons:
  "replace_char old new (c # b) = (if c = old then new else c) # replace_char old new b"
  by (simp add: replace_char_def)

lemma comma_notin_digits: "all_digits s \<Longrightarrow> CHR '','' \<notin> set s"
  by (auto dest: all_digits_D is_digit_chars)

lemma colon_notin_digits: "all_digits s \<Longrightarrow> CHR '':'' \<notin> set s"
  by (auto dest: all_digits_D is_digit_chars)

lemma digits_value_lt100: "all_digits s \<Longrightarrow> length s \<le> 2 \<Longrightarrow> digits_value s < 100"
proof -
  assume a: "all_digits s" and l: "length s \<le> 2"
  have "digits_value s < 10 ^ length s" by (rule digits_value_bound[OF a])
  also have "(10::nat) ^ length s \<le> 10 ^ 2" using l by (intro power_increasing) simp_all
  finally show ?thesis by simp
qed

lemma normalise_seconds_part:
  assumes "all_digits s" "all_digits f" "sp = CHR ''.'' \<or> sp = CHR '',''"
  shows "replace_char (CHR '','') (CHR ''.'') (s @ sp # f) = s @ CHR ''.'' # f"
  using assms
  by (auto simp: replace_char_app replace_char_Cons replace_char_none comma_notin_digits)

lemma parse_timestamp_hms:
  assumes h: "h \<noteq> []" "all_digits h" "length h \<le> 2"
      and m: "m \<noteq> []" "all_digits m" "length m \<le> 2"
      and s: "s \<noteq> []" "all_digits s"
      and f: "all_digits f"
      and sp: "sp = CHR ''.'' \<or> sp = CHR '',''"
  shows "parse_timestamp (h @ '':'' @ m @ '':'' @ s @ sp # f) =
           Inr (Fin (of_nat (digits_value h) * 3600 + of_nat (digits_value m) * 60
                     + of_nat (digits_value s) + of_nat (digits_value f) / 10 ^ length f))"
proof -
  let ?sec = "s @ CHR ''.'' # f"
  let ?ts = "h @ '':'' @ m @ '':'' @ ?sec"
  have rp: "replace_char (CHR '','') (CHR ''.'') (h @ '':'' @ m @ '':'' @ s @ sp # f) = ?ts"
    using h(2) m(2) normalise_seconds_part[OF s(2) f sp]
    by (simp add: replace_char_app replace_char_Cons replace_char_none comma_notin_digits)
  obtain c r where hc: "h = c # r" using h(1) by (cases h) auto
  have dc: "is_digit c" using h(2) hc by (simp add: all_digits_def)
  have lastd: "\<not> is_space (last ?ts)"
    using f by (cases f rule: rev_cases)
      (auto simp: is_space_def all_digits_def dest: is_digit_chars)
  have st: "strip ?ts = ?ts"
    using dc hc lastd by (intro strip_id) (auto dest: is_digit_chars)
  have csec: "CHR '':'' \<notin> set ?sec"
    using s(2) f by (auto dest: all_digits_D is_digit_chars)
  have sp3: "split_on (CHR '':'') ?ts = [h, m, ?sec]"
    using split_on_app[OF colon_notin_digits[OF h(2)], of "m @ '':'' @ ?sec"]
          split_on_app[OF colon_notin_digits[OF m(2)], of ?sec]
          split_on_none[OF csec]
    by simp
  have ih: "py_int h = Some (int (digits_value h))"
    using h by (intro py_int_digits) simp_all
  have im: "py_int m = Some (int (digits_value m))"
    using m by (intro py_int_digits) simp_all
  have fs: "py_float ?sec = Some (Fin (of_nat (digits_value s)
                                      + of_nat (digits_value f) / 10 ^ length f))"
    by (rule py_float_decimal[OF s f])
  have small: "\<bar>int (digits_value h) * 3600 + int (digits_value m) * 60\<bar> < 1000000"
    using digits_value_lt100[OF h(2,3)] digits_value_lt100[OF m(2,3)] by simp
  have sec: "seconds_of (int (digits_value h) * 3600 + int (digits_value m) * 60)
               (Fin (of_nat (digits_value s) + of_nat (digits_value f) / 10 ^ length f))
             = Inr (Fin (of_nat (digits_value h) * 3600 + of_nat (digits_value m) * 60
                     + of_nat (digits_value s) + of_nat (digits_value f) / 10 ^ length f))"
    by (simp add: seconds_of_def float_of_int_small[OF small])
  show ?thesis
    unfolding parse_timestamp_def Let_def rp st sp3
    by (simp add: ih im fs sec)
qed

lemma parse_timestamp_ms:
  assumes m: "m \<noteq> []" "all_digits m" "length m \<le> 2"
      and s: "s \<noteq> []" "all_digits s"
      and f: "all_digits f"
      and sp: "sp = CHR ''.'' \<or> sp = CHR '',''"
  shows "parse_timestamp (m @ '':'' @ s @ sp # f) =
           Inr (Fin (of_nat (digits_value m) * 60
                     + of_nat (digits_value s) + of_nat (digits_value f) / 10 ^ length f))"
proof -
  let ?sec = "s @ CHR ''.'' # f"
  let ?ts = "m @ '':'' @ ?sec"
  have rp: "replace_char (CHR '','') (CHR ''.'') (m @ '':'' @ s @ sp # f) = ?ts"
    using m(2) normalise_seconds_part[OF s(2) f sp]
    by (simp add: replace_char_app replace_char_Cons replace_char_none comma_notin_digits)
  obtain c r where hc: "m = c # r" using m(1) by (cases m) auto
  have dc: "is_digit c" using m(2) hc by (simp add: all_digits_def)
  have lastd: "\<not> is_space (last ?ts)"
    using f by (cases f rule: rev_cases)
      (auto simp: is_space_def all_digits_def dest: is_digit_chars)
  have st: "strip ?ts = ?ts"
    using dc hc lastd by (intro strip_id) (auto dest: is_digit_chars)
  have csec: "CHR '':'' \<notin> set ?sec"
    using s(2) f by (auto dest: all_digits_D is_digit_chars)
  have sp2: "split_on (CHR '':'') ?ts = [m, ?sec]"
    using split_on_app[OF colon_notin_digits[OF m(2)], of ?sec] split_on_none[OF csec]
    by simp
  have im: "py_int m = Some (int (digits_value m))"
    using m by (intro py_int_digits) simp_all
  have fs: "py_float ?sec = Some (Fin (of_nat (digits_value s)
                                      + of_nat (digits_value f) / 10 ^ length f))"
    by (rule py_float_decimal[OF s f])
  have small: "\<bar>int (digits_value m) * 60\<bar> < 1000000"
    using digits_value_lt100[OF m(2,3)] by simp
  have sec: "seconds_of (int (digits_value m) * 60)
               (Fin (of_nat (digits_value s) + of_nat (digits_value f) / 10 ^ length f))
             = Inr (Fin (of_nat (digits_value m) * 60
                     + of_nat (digits_value s) + of_nat (digits_value f) / 10 ^ length f))"
    by (simp add: seconds_of_def float_of_int_small[OF small])
  show ?thesis
    unfolding parse_timestamp_def Let_def rp st sp2
    by (simp add: im fs sec)
qed

lemma length_split_on: "length (split_on c s) = Suc (length (filter (\<lambda>x. x = c) s))"
  by (induction s) (auto split: list.splits)

lemma filter_dropWhile:
  "(\<And>x. P x \<Longrightarrow> \<not> Q x) \<Longrightarrow> filter P (dropWhile Q s) = filter P s"
  by (induction s) auto

lemma filter_strip:
  assumes "\<And>x. P x \<Longrightarrow> \<not> is_space x"
  shows "filter P (strip s) = filter P s"
proof -
  have "filter P (strip s) = rev (filter P (dropWhile is_space (rev (dropWhile is_space s))))"
    by (simp add: strip_def rev_filter)
  also have "\<dots> = rev (filter P (rev (dropWhile is_space s)))"
    using assms by (simp add: filter_dropWhile)
  also have "\<dots> = filter P (dropWhile is_space s)"
    by (simp add: rev_filter)
  also have "\<dots> = filter P s"
    using assms by (simp add: filter_dropWhile)
  finally show ?thesis .
qed

lemma colon_count_normalised:
  "length (filter (\<lambda>x. x = CHR '':'')
             (strip (replace_char (CHR '','') (CHR ''.'') ts)))
   = length (filter (\<lambda>x. x = CHR '':'') ts)"
proof -
  have "filter (\<lambda>x. x = CHR '':'') (replace_char (CHR '','') (CHR ''.'') ts)
          = filter (\<lambda>x. x = CHR '':'') ts"
    by (induction ts) (auto simp: replace_char_def)
  moreover have "filter (\<lambda>x. x = CHR '':'') (strip (replace_char (CHR '','') (CHR ''.'') ts))
          = filter (\<lambda>x. x = CHR '':'') (replace_char (CHR '','') (CHR ''.'') ts)"
    by (rule filter_strip) (simp add: is_space_def)
  ultimately show ?thesis
    by simp
qed

lemma parse_timestamp_other:
  assumes "length (filter (\<lambda>x. x = CHR '':'') ts) \<noteq> 1"
      and "length (filter (\<lambda>x. x = CHR '':'') ts) \<noteq> 2"
  shows "parse_timestamp ts = Inr (Fin 0)"
proof -
  let ?parts = "split_on (CHR '':'') (strip (replace_char (CHR '','') (CHR ''.'') ts))"
  have "length ?parts \<noteq> 2" "length ?parts \<noteq> 3"
    using assms by (simp_all add: length_split_on colon_count_normalised)
  then show ?thesis
    unfolding parse_timestamp_def Let_def
    by (auto split: list.splits)
qed

lemma parse_timestamp_raises:
  "parse_timestamp ts = Inl e \<Longrightarrow> e = ValueError \<or> e = OverflowError"
  unfolding parse_timestamp_def Let_def seconds_of_def float_of_int_def
  by (auto split: list.splits option.splits if_splits sum.splits)

text \<open>
  Claim C7, as the code has it. \<^verbatim>\<open>parse_timestamp\<close> returns the total seconds for a
  well-formed \<^verbatim>\<open>HH:MM:SS.mmm\<close> or \<^verbatim>\<open>MM:SS.mmm\<close> input (comma or point before the
  fraction), and \<open>0.0\<close> for every input that does not have exactly two or three fields
  between colons. It does raise: only \<^verbatim>\<open>ValueError\<close> or \<^verbatim>\<open>OverflowError\<close>, and only on
  an input with two or three fields (one of which \<^verbatim>\<open>int\<close> or \<^verbatim>\<open>float\<close> rejects).
\<close>

theorem parse_timestamp_spec:
  "(h \<noteq> [] \<and> all_digits h \<and> length h \<le> 2 \<and> m \<noteq> [] \<and> all_digits m \<and> length m \<le> 2
      \<and> s \<noteq> [] \<and> all_digits s \<and> all_digits f \<and> (sp = CHR ''.'' \<or> sp = CHR '','') \<longrightarrow>
      parse_timestamp (h @ '':'' @ m @ '':'' @ s @ sp # f) =
        Inr (Fin (of_nat (digits_value h) * 3600 + of_nat (digits_value m) * 60
                  + of_nat (digits_value s) + of_nat (digits_value f) / 10 ^ length f))
      \<and> parse_timestamp (m @ '':'' @ s @ sp # f) =
        Inr (Fin (of_nat (digits_value m) * 60
                  + of_nat (digits_value s) + of_nat (digits_value f) / 10 ^ length f)))
   \<and> (length (filter (\<lambda>x. x = CHR '':'') ts) \<noteq> 1
        \<and> length (filter (\<lambda>x. x = CHR '':'') ts) \<noteq> 2 \<longrightarrow>
      parse_timestamp ts = Inr (Fin 0))
   \<and> (parse_timestamp ts = Inl e \<longrightarrow>
        (e = ValueError \<or> e = OverflowError)
        \<and> (length (filter (\<lambda>x. x = CHR '':'') ts) = 1
             \<or> length (filter (\<lambda>x. x = CHR '':'') ts) = 2))"
proof (intro conjI impI)
  assume a: "h \<noteq> [] \<and> all_digits h \<and> length h \<le> 2 \<and> m \<noteq> [] \<and> all_digits m \<and> length m \<le> 2
      \<and> s \<noteq> [] \<and> all_digits s \<and> all_digits f \<and> (sp = CHR ''.'' \<or> sp = CHR '','')"
  then show "parse_timestamp (h @ '':'' @ m @ '':'' @ s @ sp # f) =
        Inr (Fin (of_nat (digits_value h) * 3600 + of_nat (digits_value m) * 60
                  + of_nat (digits_value s) + of_nat (digits_value f) / 10 ^ length f))"
    by (intro parse_timestamp_hms) simp_all
  from a show "parse_timestamp (m @ '':'' @ s @ sp # f) =
        Inr (Fin (of_nat (digits_value m) * 60
                  + of_nat (digits_value s) + of_nat (digits_value f) / 10 ^ length f))"
    by (intro parse_timestamp_ms) simp_all
next
  assume "length (filter (\<lambda>x. x = CHR '':'') ts) \<noteq> 1
        \<and> length (filter (\<lambda>x. x = CHR '':'') ts) \<noteq> 2"
  then show "parse_timestamp ts = Inr (Fin 0)"
    by (intro parse_timestamp_other) simp_all
next
  assume r: "parse_timestamp ts = Inl e"
  then show "e = ValueError \<or> e = OverflowError"
    by (rule parse_timestamp_raises)
  show "length (filter (\<lambda>x. x = CHR '':'') ts) = 1
             \<or> length (filter (\<lambda>x. x = CHR '':'') ts) = 2"
    using r parse_timestamp_other[of ts] by auto
qed

text \<open>The three examples of the specification.\<close>

theorem parse_timestamp_spec_witness:
  "parse_timestamp ''00:01:05.250'' = Inr (Fin (261 / 4))
   \<and> parse_timestamp ''1:05.250'' = Inr (Fin (261 / 4))
   \<and> parse_timestamp ''garbage'' = Inr (Fin 0)"
proof -
  have d: "all_digits ''00''" "all_digits ''01''" "all_digits ''1''" "all_digits ''05''"
          "all_digits ''250''"
    by (simp_all add: all_digits_def is_digit_def)
  have v: "digits_value ''00'' = 0" "digits_value ''01'' = 1" "digits_value ''1'' = 1"
          "digits_value ''05'' = 5" "digits_value ''250'' = 250"
    by (simp_all add: digits_value_def is_digit_def digit_val_def)
  have g: "length (filter (\<lambda>x. x = CHR '':'') ''garbage'') = 0"
    by simp
  have 1: "parse_timestamp ''00:01:05.250'' = Inr (Fin (261 / 4))"
    using parse_timestamp_spec[of "''00''" "''01''" "''05''" "''250''" "CHR ''.''" "''garbage''"]
          d v by simp
  have 2: "parse_timestamp ''1:05.250'' = Inr (Fin (261 / 4))"
    using parse_timestamp_spec[of "''1''" "''1''" "''05''" "''250''" "CHR ''.''" "''garbage''"]
          d v by simp
  have 3: "parse_timestamp ''garbage'' = Inr (Fin 0)"
    using parse_timestamp_spec[of "''1''" "''1''" "''05''" "''250''" "CHR ''.''" "''garbage''"]
          g by simp
  show ?thesis using 1 2 3 by simp
qed

text \<open>The claim as stated, that no input makes \<^verbatim>\<open>parse_timestamp\<close> raise, fails: a field
  that is not a number reaches \<^verbatim>\<open>int\<close> unguarded.\<close>

theorem parse_timestamp_raises_counterexample:
  "parse_timestamp ''a:b'' = Inl ValueError"
  by code_simp

subsection \<open>The cue pattern\<close>

text \<open>
  The pattern of \<^verbatim>\<open>parse_vtt_segments\<close> is
  \<^verbatim>\<open>(\d{1,2}:\d{2}:\d{2}[.,]\d+)\s*-->\s*(\d{1,2}:\d{2}:\d{2}[.,]\d+)\<close>, applied with
  \<^verbatim>\<open>match\<close>: anchored at the start of the line, free at its end. The matcher below
  follows the pattern piece by piece and returns the two groups. Backtracking never
  finds a match the greedy reading misses: the digits, the whitespace, the colon and
  the arrow are disjoint classes, and the one choice that matters (\<^verbatim>\<open>\d{1,2}\<close>) is
  tried with two digits first and with one digit after.
\<close>

text \<open>Exactly \<open>n\<close> digits, and a literal text, at the front: the match and the rest.\<close>

definition take_digits :: "nat \<Rightarrow> string \<Rightarrow> (string \<times> string) option" where
  "take_digits n s =
     (if n \<le> length s \<and> list_all is_digit (take n s) then Some (take n s, drop n s) else None)"

definition literal :: "string \<Rightarrow> string \<Rightarrow> string option" where
  "literal p s = (if prefix p s then Some (drop (length p) s) else None)"

text \<open>\<^verbatim>\<open>\d{1,2}\<close> in front of a colon.\<close>

definition re_hours :: "string \<Rightarrow> (string \<times> string) option" where
  "re_hours s =
     (case take_digits 2 s of
        Some (h, r) \<Rightarrow> if prefix '':'' r then Some (h, r) else take_digits 1 s
      | None \<Rightarrow> take_digits 1 s)"

text \<open>One timestamp, \<^verbatim>\<open>\d{1,2}:\d{2}:\d{2}[.,]\d+\<close>: the group and the rest of the line.\<close>

definition match_timestamp :: "string \<Rightarrow> (string \<times> string) option" where
  "match_timestamp s =
     (case re_hours s of None \<Rightarrow> None | Some (h, r1) \<Rightarrow>
      case literal '':'' r1 of None \<Rightarrow> None | Some r2 \<Rightarrow>
      case take_digits 2 r2 of None \<Rightarrow> None | Some (m, r3) \<Rightarrow>
      case literal '':'' r3 of None \<Rightarrow> None | Some r4 \<Rightarrow>
      case take_digits 2 r4 of None \<Rightarrow> None | Some (sec, r5) \<Rightarrow>
      case r5 of
        [] \<Rightarrow> None
      | c # r6 \<Rightarrow>
          if (c = CHR ''.'' \<or> c = CHR '','') \<and> takeWhile is_digit r6 \<noteq> []
          then Some (h @ '':'' @ m @ '':'' @ sec @ c # takeWhile is_digit r6,
                     dropWhile is_digit r6)
          else None)"

text \<open>\<^verbatim>\<open>timestamp_pattern.match(line)\<close>: \<^verbatim>\<open>group(1)\<close> and \<^verbatim>\<open>group(2)\<close>.\<close>

definition timestamp_pattern_match :: "string \<Rightarrow> (string \<times> string) option" where
  "timestamp_pattern_match line =
     (case match_timestamp line of None \<Rightarrow> None | Some (g1, r1) \<Rightarrow>
      case literal ''-->'' (dropWhile is_space r1) of None \<Rightarrow> None | Some r2 \<Rightarrow>
      case match_timestamp (dropWhile is_space r2) of None \<Rightarrow> None
      | Some (g2, r3) \<Rightarrow> Some (g1, g2))"

text \<open>\<^verbatim>\<open>str.isdigit\<close> on the code points below 256: the decimal digits and the three
  superscript digits.\<close>

definition is_unicode_digit :: "char \<Rightarrow> bool" where
  "is_unicode_digit c =
     (let n = (of_char c :: nat) in is_digit c \<or> n = 178 \<or> n = 179 \<or> n = 185)"

definition py_isdigit :: "string \<Rightarrow> bool" where
  "py_isdigit s \<longleftrightarrow> s \<noteq> [] \<and> list_all is_unicode_digit s"

subsection \<open>The caption parser\<close>

text \<open>A segment: the tuple \<^verbatim>\<open>(start_sec, end_sec, text)\<close>.\<close>

record segment =
  start_sec :: pyfloat
  end_sec :: pyfloat
  vtt_text :: string

text \<open>\<^verbatim>\<open>' '.join(text_lines)\<close>.\<close>

fun join_space :: "string list \<Rightarrow> string" where
  "join_space [] = []"
| "join_space [x] = x"
| "join_space (x # y # r) = x @ '' '' @ join_space (y # r)"

text \<open>A stripped line is collected as text unless it is empty, matches the cue pattern
  or is all digits: the negation of the \<^verbatim>\<open>break\<close> condition.\<close>

definition is_text_line :: "string \<Rightarrow> bool" where
  "is_text_line t \<longleftrightarrow> \<not> (t = [] \<or> timestamp_pattern_match t \<noteq> None \<or> py_isdigit t)"

text \<open>The \<^verbatim>\<open>while i < len(lines)\<close> loop, on the lines from index \<open>i\<close> on. A line
  that matches starts a cue: the text lines after it are collected up to the first
  line that stops them, and the scan goes on from that line, which is not consumed.\<close>

function scan_lines :: "string list \<Rightarrow> py_error + segment list" where
  "scan_lines [] = Inr []"
| "scan_lines (l # ls) =
     (case timestamp_pattern_match (strip l) of
        None \<Rightarrow> scan_lines ls
      | Some (g1, g2) \<Rightarrow>
          (case parse_timestamp g1 of Inl e \<Rightarrow> Inl e | Inr start \<Rightarrow>
           case parse_timestamp g2 of Inl e \<Rightarrow> Inl e | Inr end \<Rightarrow>
             (let text_lines = takeWhile is_text_line (map strip ls);
                  rest = dropWhile (\<lambda>x. is_text_line (strip x)) ls
              in case scan_lines rest of
                   Inl e \<Rightarrow> Inl e
                 | Inr segments \<Rightarrow>
                     Inr ((if text_lines \<noteq> []
                           then [\<lparr>start_sec = start, end_sec = end,
                                  vtt_text = join_space text_lines\<rparr>]
                           else []) @ segments))))"
  by pat_completeness auto
termination
  by (relation "measure length") (auto simp: less_Suc_eq_le length_dropWhile_le)

text \<open>\<^verbatim>\<open>replace('\r\n', '\n')\<close>, scanning from the left.\<close>

fun replace_crlf :: "string \<Rightarrow> string" where
  "replace_crlf (a # b # r) =
     (if a = CHR 0x0D \<and> b = CHR 0x0A then CHR 0x0A # replace_crlf r
      else a # replace_crlf (b # r))"
| "replace_crlf r = r"

text \<open>\<^verbatim>\<open>parse_vtt_segments\<close>; \<open>None\<close> is a missing input.\<close>

definition parse_vtt_segments :: "string option \<Rightarrow> py_error + segment list" where
  "parse_vtt_segments vtt_content =
     (case vtt_content of
        None \<Rightarrow> Inr []
      | Some content \<Rightarrow>
          if content = [] then Inr []
          else scan_lines (split_on (CHR 0x0A)
                 (replace_char (CHR 0x0D) (CHR 0x0A) (replace_crlf content))))"

subsection \<open>What the cue pattern accepts\<close>

lemma take_digits_Some:
  "take_digits n s = Some (d, r) \<longleftrightarrow> s = d @ r \<and> length d = n \<and> all_digits d"
  by (auto simp: take_digits_def all_digits_def)

lemma literal_Some: "literal p s = Some r \<longleftrightarrow> s = p @ r"
  by (auto simp: literal_def prefix_def)

lemma re_hours_Some:
  "re_hours s = Some (h, r) \<Longrightarrow> s = h @ r \<and> all_digits h \<and> (length h = 1 \<or> length h = 2)"
  by (auto simp: re_hours_def take_digits_Some split: option.splits if_splits)

lemma match_timestamp_shape:
  assumes "match_timestamp s = Some (g, r)"
  shows "\<exists>t. wf_timestamp t \<and> g = render_ts t \<and> s = g @ r \<and> r = dropWhile is_digit r"
proof -
  from assms obtain h r1 r2 m r3 r4 sec c r6 where
    h: "re_hours s = Some (h, r1)" and l1: "literal '':'' r1 = Some r2"
    and m: "take_digits 2 r2 = Some (m, r3)" and l2: "literal '':'' r3 = Some r4"
    and sec: "take_digits 2 r4 = Some (sec, c # r6)"
    and c: "c = CHR ''.'' \<or> c = CHR '',''" and f: "takeWhile is_digit r6 \<noteq> []"
    and g: "g = h @ '':'' @ m @ '':'' @ sec @ c # takeWhile is_digit r6"
    and r: "r = dropWhile is_digit r6"
    unfolding match_timestamp_def
    by (auto split: option.splits list.splits if_splits)
  let ?t = "\<lparr>hh = h, mm = m, ss = sec, sep = c, frac = takeWhile is_digit r6\<rparr>"
  have fd: "all_digits (takeWhile is_digit r6)"
    by (auto simp: all_digits_def list_all_iff dest: set_takeWhileD)
  have "wf_timestamp ?t"
    using re_hours_Some[OF h] m sec c f fd
    by (auto simp: wf_timestamp_def take_digits_Some)
  moreover have "g = render_ts ?t"
    by (simp add: g render_ts_def)
  moreover have "s = g @ r"
    using re_hours_Some[OF h] l1 m l2 sec
    by (simp add: g r take_digits_Some literal_Some)
  moreover have "r = dropWhile is_digit r"
    unfolding r by (metis dropWhile_idem)
  ultimately show ?thesis by blast
qed

lemma parse_timestamp_render:
  assumes "wf_timestamp t"
  shows "parse_timestamp (render_ts t) = Inr (Fin (ts_seconds t))"
proof -
  from assms have "parse_timestamp (hh t @ '':'' @ mm t @ '':'' @ ss t @ sep t # frac t) =
      Inr (Fin (of_nat (digits_value (hh t)) * 3600 + of_nat (digits_value (mm t)) * 60
            + of_nat (digits_value (ss t))
            + of_nat (digits_value (frac t)) / 10 ^ length (frac t)))"
    by (intro parse_timestamp_hms) (auto simp: wf_timestamp_def)
  then show ?thesis
    by (simp add: render_ts_def ts_seconds_def)
qed

lemma len1: "length s = Suc 0 \<Longrightarrow> \<exists>a. s = [a]"
  by (cases s) auto

lemma len2: "length s = 2 \<Longrightarrow> \<exists>a b. s = [a, b]"
  by (cases s; cases "tl s") auto

lemma match_timestamp_render:
  assumes wf: "wf_timestamp t" and r: "r = [] \<or> \<not> is_digit (hd r)"
  shows "match_timestamp (render_ts t @ r) = Some (render_ts t, r)"
proof -
  from wf obtain c d where m: "mm t = [c, d]" and md: "is_digit c" "is_digit d"
    by (auto simp: wf_timestamp_def all_digits_def dest!: len2)
  from wf obtain e f where s: "ss t = [e, f]" and sd: "is_digit e" "is_digit f"
    by (auto simp: wf_timestamp_def all_digits_def dest!: len2)
  from wf have sp: "sep t = CHR ''.'' \<or> sep t = CHR '',''"
    and fr: "frac t \<noteq> []" "all_digits (frac t)"
    by (auto simp: wf_timestamp_def)
  have tw: "takeWhile is_digit (frac t @ r) = frac t"
    using fr r by (cases r) (auto simp: all_digits_def list_all_iff takeWhile_append)
  have dw: "dropWhile is_digit (frac t @ r) = r"
    using fr r by (cases r) (auto simp: all_digits_def list_all_iff dropWhile_append)
  have nc: "\<not> is_digit (CHR '':'')" by (simp add: is_digit_def)
  from wf consider (one) a where "hh t = [a]" "is_digit a"
    | (two) a b where "hh t = [a, b]" "is_digit a" "is_digit b"
    by (auto simp: wf_timestamp_def all_digits_def dest!: len1 len2)
  then have rh: "re_hours (render_ts t @ r) =
                   Some (hh t, '':'' @ mm t @ '':'' @ ss t @ sep t # frac t @ r)"
  proof cases
    case one
    then show ?thesis
      by (simp add: re_hours_def take_digits_def render_ts_def nc)
  next
    case two
    then show ?thesis
      by (simp add: re_hours_def take_digits_def render_ts_def)
  qed
  show ?thesis
    unfolding match_timestamp_def rh
    using sp fr
    by (simp add: literal_def take_digits_def m md s sd tw dw render_ts_def)
qed

lemma dropWhile_space_arrow:
  "dropWhile is_space ('' --> '' @ r) = ''--> '' @ r"
  by (simp add: is_space_def)

lemma not_digit_space: "is_space c \<Longrightarrow> \<not> is_digit c"
  by (auto simp: is_space_def is_digit_def Let_def)

lemma render_ts_hd_digit: "wf_timestamp t \<Longrightarrow> \<exists>a x. render_ts t = a # x \<and> is_digit a"
  by (cases "hh t") (auto simp: wf_timestamp_def render_ts_def all_digits_def)

lemma render_ts_last_digit:
  "wf_timestamp t \<Longrightarrow> \<exists>a x. render_ts t = x @ [a] \<and> is_digit a"
  by (cases "frac t" rule: rev_cases) (auto simp: wf_timestamp_def render_ts_def all_digits_def)

text \<open>A cue line as a caption file writes it.\<close>

definition render_cue_line :: "timestamp \<Rightarrow> timestamp \<Rightarrow> string" where
  "render_cue_line a b = render_ts a @ '' --> '' @ render_ts b"

lemma timestamp_pattern_render:
  assumes "wf_timestamp a" "wf_timestamp b"
  shows "timestamp_pattern_match (render_cue_line a b) = Some (render_ts a, render_ts b)"
proof -
  have 1: "match_timestamp (render_ts a @ '' --> '' @ render_ts b)
             = Some (render_ts a, '' --> '' @ render_ts b)"
    by (rule match_timestamp_render[OF assms(1)]) (simp add: is_digit_def)
  obtain c x where b: "render_ts b = c # x" "is_digit c"
    using render_ts_hd_digit[OF assms(2)] by blast
  have 2: "literal ''-->'' (dropWhile is_space ('' --> '' @ render_ts b)) = Some ('' '' @ render_ts b)"
    by (simp add: literal_def is_space_def)
  have 3: "dropWhile is_space ('' '' @ render_ts b) = render_ts b"
    using b by (auto simp: is_space_def dest: is_digit_chars)
  have 4: "match_timestamp (render_ts b) = Some (render_ts b, [])"
    using match_timestamp_render[OF assms(2), of "[]"] by simp
  show ?thesis
    unfolding timestamp_pattern_match_def render_cue_line_def 1
    by (simp only: option.case prod.case 2 3 4)
qed

lemma strip_render_cue_line:
  assumes "wf_timestamp a" "wf_timestamp b"
  shows "strip (render_cue_line a b) = render_cue_line a b"
proof -
  obtain c x where a: "render_ts a = c # x" "is_digit c"
    using render_ts_hd_digit[OF assms(1)] by blast
  obtain d y where b: "render_ts b = y @ [d]" "is_digit d"
    using render_ts_last_digit[OF assms(2)] by blast
  show ?thesis
    using a b by (intro strip_id) (auto simp: render_cue_line_def dest: is_digit_chars)
qed

lemma timestamp_pattern_parses:
  assumes "timestamp_pattern_match t = Some (g1, g2)"
  shows "\<exists>a b. wf_timestamp a \<and> wf_timestamp b \<and> g1 = render_ts a \<and> g2 = render_ts b"
  using assms unfolding timestamp_pattern_match_def
  by (auto split: option.splits dest!: match_timestamp_shape) blast

text \<open>The parser never raises: a timestamp the pattern has matched always parses.\<close>

lemma scan_lines_total: "\<exists>segs. scan_lines ls = Inr segs"
proof (induction ls rule: scan_lines.induct)
  case 1
  then show ?case by simp
next
  case (2 l ls)
  show ?case
  proof (cases "timestamp_pattern_match (strip l)")
    case None
    with 2(1) show ?thesis by simp
  next
    case (Some p)
    obtain g1 g2 where p: "p = (g1, g2)" by (cases p)
    from timestamp_pattern_parses[OF Some[unfolded p]] obtain a b where
      ab: "wf_timestamp a" "wf_timestamp b" "g1 = render_ts a" "g2 = render_ts b" by blast
    have p1: "parse_timestamp g1 = Inr (Fin (ts_seconds a))"
      and p2: "parse_timestamp g2 = Inr (Fin (ts_seconds b))"
      using ab parse_timestamp_render by simp_all
    from 2(2)[OF Some[unfolded p] refl p1 p2 refl refl]
    obtain segs where "scan_lines (dropWhile (\<lambda>x. is_text_line (strip x)) ls) = Inr segs"
      by blast
    then show ?thesis
      using Some p p1 p2 by (simp add: Let_def)
  qed
qed

subsection \<open>Caption files made of cue blocks\<close>

text \<open>\<^verbatim>\<open>a <= b\<close> on floats.\<close>

fun fle :: "pyfloat \<Rightarrow> pyfloat \<Rightarrow> bool" where
  "fle (Fin a) (Fin b) = (a \<le> b)"
| "fle NaN y = False"
| "fle x NaN = False"
| "fle NInf y = True"
| "fle x PInf = True"
| "fle x y = False"

text \<open>A cue block: its two timestamps and its text lines. A block is followed by
  separator lines: lines that do not match the cue pattern, the first of which (if
  any) is blank or all digits, so that it ends the text. A document is a header of
  lines that do not match, followed by blocks.\<close>

record cue =
  cue_start :: timestamp
  cue_end :: timestamp
  cue_lines :: "string list"

definition no_match :: "string \<Rightarrow> bool" where
  "no_match l \<longleftrightarrow> timestamp_pattern_match (strip l) = None"

definition wf_cue :: "cue \<Rightarrow> bool" where
  "wf_cue c \<longleftrightarrow>
     wf_timestamp (cue_start c) \<and> wf_timestamp (cue_end c)
     \<and> list_all (\<lambda>l. is_text_line (strip l)) (cue_lines c)"

definition wf_seps :: "string list \<Rightarrow> bool" where
  "wf_seps seps \<longleftrightarrow>
     list_all no_match seps
     \<and> (case seps of [] \<Rightarrow> True | l # r \<Rightarrow> \<not> is_text_line (strip l))"

definition cue_segment :: "cue \<Rightarrow> segment" where
  "cue_segment c =
     \<lparr> start_sec = Fin (ts_seconds (cue_start c)),
       end_sec = Fin (ts_seconds (cue_end c)),
       vtt_text = join_space (map strip (cue_lines c)) \<rparr>"

definition render_cue :: "cue \<Rightarrow> string list" where
  "render_cue c = render_cue_line (cue_start c) (cue_end c) # cue_lines c"

definition render_blocks :: "(cue \<times> string list) list \<Rightarrow> string list" where
  "render_blocks blocks = concat (map (\<lambda>b. render_cue (fst b) @ snd b) blocks)"

definition wf_block :: "cue \<times> string list \<Rightarrow> bool" where
  "wf_block b \<longleftrightarrow> wf_cue (fst b) \<and> wf_seps (snd b)"

fun join_lines :: "string list \<Rightarrow> string" where
  "join_lines [] = []"
| "join_lines [x] = x"
| "join_lines (x # y # r) = x @ [CHR 0x0A] @ join_lines (y # r)"

lemma scan_lines_skip: "list_all no_match pre \<Longrightarrow> scan_lines (pre @ rest) = scan_lines rest"
  by (induction pre) (auto simp: no_match_def)

lemma is_text_line_no_match: "is_text_line (strip l) \<Longrightarrow> no_match l"
  by (cases "timestamp_pattern_match (strip l)") (auto simp: is_text_line_def no_match_def)

definition stops :: "string list \<Rightarrow> bool" where
  "stops rest \<longleftrightarrow> (case rest of [] \<Rightarrow> True | l # r \<Rightarrow> \<not> is_text_line (strip l))"

lemma takeWhile_text:
  assumes "list_all (\<lambda>l. is_text_line (strip l)) ls" "stops rest"
  shows "takeWhile is_text_line (map strip (ls @ rest)) = map strip ls"
    and "dropWhile (\<lambda>x. is_text_line (strip x)) (ls @ rest) = rest"
  using assms
  by (induction ls) (auto simp: stops_def split: list.splits)

lemma cue_line_not_text:
  assumes "wf_timestamp a" "wf_timestamp b"
  shows "\<not> is_text_line (strip (render_cue_line a b))"
  using timestamp_pattern_render[OF assms] strip_render_cue_line[OF assms]
  by (simp add: is_text_line_def)

lemma scan_lines_block:
  assumes c: "wf_cue c" and seps: "wf_seps seps" and rest: "stops rest"
  shows "scan_lines (render_cue c @ seps @ rest) =
           (case scan_lines rest of
              Inl e \<Rightarrow> Inl e
            | Inr segs \<Rightarrow> Inr ((if cue_lines c \<noteq> [] then [cue_segment c] else []) @ segs))"
proof -
  let ?a = "cue_start c" and ?b = "cue_end c"
  from c have wf: "wf_timestamp ?a" "wf_timestamp ?b"
    and tl: "list_all (\<lambda>l. is_text_line (strip l)) (cue_lines c)"
    by (simp_all add: wf_cue_def)
  have m: "timestamp_pattern_match (strip (render_cue_line ?a ?b))
             = Some (render_ts ?a, render_ts ?b)"
    by (simp add: strip_render_cue_line[OF wf] timestamp_pattern_render[OF wf])
  have st: "stops (seps @ rest)"
    using seps rest by (cases seps) (auto simp: wf_seps_def stops_def)
  have sk: "scan_lines (seps @ rest) = scan_lines rest"
    using seps by (intro scan_lines_skip) (simp add: wf_seps_def)
  show ?thesis
    using takeWhile_text[OF tl st]
    by (simp add: render_cue_def m parse_timestamp_render[OF wf(1)]
          parse_timestamp_render[OF wf(2)] sk cue_segment_def Let_def split: sum.splits)
qed

lemma stops_render_blocks: "list_all wf_block blocks \<Longrightarrow> stops (render_blocks blocks)"
proof (cases blocks)
  case Nil
  then show ?thesis by (simp add: stops_def render_blocks_def)
next
  case (Cons b bs)
  assume "list_all wf_block blocks"
  with Cons have "wf_timestamp (cue_start (fst b))" "wf_timestamp (cue_end (fst b))"
    by (simp_all add: wf_block_def wf_cue_def)
  from cue_line_not_text[OF this] Cons show ?thesis
    by (simp add: stops_def render_blocks_def render_cue_def)
qed

lemma scan_lines_blocks:
  "list_all wf_block blocks \<Longrightarrow>
   scan_lines (render_blocks blocks) =
     Inr (map cue_segment (filter (\<lambda>c. cue_lines c \<noteq> []) (map fst blocks)))"
proof (induction blocks)
  case Nil
  then show ?case by (simp add: render_blocks_def)
next
  case (Cons b bs)
  from Cons.prems have bs: "list_all wf_block bs" and "wf_block b"
    by simp_all
  then have b: "wf_cue (fst b)" "wf_seps (snd b)"
    by (simp_all add: wf_block_def)
  have "scan_lines (render_blocks (b # bs))
          = scan_lines (render_cue (fst b) @ snd b @ render_blocks bs)"
    by (simp add: render_blocks_def)
  also have "\<dots> = (case scan_lines (render_blocks bs) of
              Inl e \<Rightarrow> Inl e
            | Inr segs \<Rightarrow>
                Inr ((if cue_lines (fst b) \<noteq> [] then [cue_segment (fst b)] else []) @ segs))"
    by (rule scan_lines_block[OF b stops_render_blocks[OF bs]])
  finally show ?case
    by (simp add: Cons.IH[OF bs])
qed

lemma replace_crlf_id: "CHR 0x0D \<notin> set s \<Longrightarrow> replace_crlf s = s"
  by (induction s rule: replace_crlf.induct) auto

lemma set_join_lines: "set (join_lines ls) \<subseteq> \<Union> (set ` set ls) \<union> {CHR 0x0A}"
  by (induction ls rule: join_lines.induct) auto

lemma split_join_lines:
  "ls \<noteq> [] \<Longrightarrow> list_all (\<lambda>l. CHR 0x0A \<notin> set l) ls \<Longrightarrow>
   split_on (CHR 0x0A) (join_lines ls) = ls"
proof (induction ls rule: join_lines.induct)
  case 1
  then show ?case by simp
next
  case (2 x)
  then show ?case by (simp add: split_on_none)
next
  case (3 x y r)
  then show ?case
    using split_on_app[of "CHR 0x0A" x "join_lines (y # r)"] by simp
qed

lemma parse_vtt_segments_lines:
  assumes "list_all (\<lambda>l. CHR 0x0D \<notin> set l \<and> CHR 0x0A \<notin> set l) ls"
      and "join_lines ls \<noteq> []"
  shows "parse_vtt_segments (Some (join_lines ls)) = scan_lines ls"
proof -
  from assms(2) have ne: "ls \<noteq> []" by auto
  have "CHR 0x0D \<notin> set (join_lines ls)"
    using set_join_lines[of ls] assms(1) by (auto simp: list_all_iff)
  then have n: "replace_char (CHR 0x0D) (CHR 0x0A) (replace_crlf (join_lines ls)) = join_lines ls"
    by (simp add: replace_crlf_id replace_char_none)
  have "split_on (CHR 0x0A) (join_lines ls) = ls"
    using assms(1) by (intro split_join_lines[OF ne]) (simp add: list_all_iff)
  with n assms(2) show ?thesis
    by (simp add: parse_vtt_segments_def)
qed

lemma parse_vtt_segments_total: "\<exists>segs. parse_vtt_segments content = Inr segs"
  using scan_lines_total by (auto simp: parse_vtt_segments_def split: option.splits)


lemma join_space_nonempty: "xs \<noteq> [] \<Longrightarrow> hd xs \<noteq> [] \<Longrightarrow> join_space xs \<noteq> []"
  by (induction xs rule: join_space.induct) auto

lemma cue_segment_text:
  assumes "wf_cue c" "cue_lines c \<noteq> []"
  shows "vtt_text (cue_segment c) \<noteq> []"
proof -
  from assms obtain l ls where l: "cue_lines c = l # ls" by (cases "cue_lines c") auto
  with assms(1) have "strip l \<noteq> []" by (simp add: wf_cue_def is_text_line_def)
  with l show ?thesis by (simp add: cue_segment_def join_space_nonempty)
qed

lemma join_lines_contains: "l \<in> set ls \<Longrightarrow> set l \<subseteq> set (join_lines ls)"
  by (induction ls rule: join_lines.induct) auto

lemma render_cue_line_nonempty: "wf_timestamp a \<Longrightarrow> render_cue_line a b \<noteq> []"
  using render_ts_hd_digit[of a] by (auto simp: render_cue_line_def)

lemma scan_lines_document:
  assumes "list_all no_match header" "list_all wf_block blocks"
  shows "scan_lines (header @ render_blocks blocks) =
           Inr (map cue_segment (filter (\<lambda>c. cue_lines c \<noteq> []) (map fst blocks)))"
  using scan_lines_skip[OF assms(1)] scan_lines_blocks[OF assms(2)] by simp

text \<open>
  Claim C8, as the code has it. For a caption input made of a header and cue blocks
  whose timestamps have the \<^verbatim>\<open>H:MM:SS.mmm\<close> shape and whose text lines are lines the
  parser collects (not blank, not a cue line, not all digits), the parser returns, in
  order, one segment for every block that has text lines and none for a block
  without: \<open>N\<close> blocks with text give exactly \<open>N\<close> segments. Each segment carries
  what \<^verbatim>\<open>parse_timestamp\<close> returns on the start and on the end of its cue, and the
  stripped text lines joined by spaces, which is not empty. An empty or missing
  input gives the empty list, and no input makes the parser raise.
\<close>

theorem parse_vtt_segments_cues:
  assumes "list_all no_match header"
      and "list_all wf_block blocks"
      and "list_all (\<lambda>l. CHR 0x0D \<notin> set l \<and> CHR 0x0A \<notin> set l) (header @ render_blocks blocks)"
  shows "parse_vtt_segments (Some (join_lines (header @ render_blocks blocks)))
           = Inr (map cue_segment (filter (\<lambda>c. cue_lines c \<noteq> []) (map fst blocks)))
         \<and> length (map cue_segment (filter (\<lambda>c. cue_lines c \<noteq> []) (map fst blocks)))
             = length (filter (\<lambda>b. cue_lines (fst b) \<noteq> []) blocks)
         \<and> list_all (\<lambda>s. vtt_text s \<noteq> [])
             (map cue_segment (filter (\<lambda>c. cue_lines c \<noteq> []) (map fst blocks)))
         \<and> list_all (\<lambda>c. parse_timestamp (render_ts (cue_start c))
                          = Inr (start_sec (cue_segment c))
                        \<and> parse_timestamp (render_ts (cue_end c))
                          = Inr (end_sec (cue_segment c))
                        \<and> vtt_text (cue_segment c) = join_space (map strip (cue_lines c)))
             (map fst blocks)
         \<and> parse_vtt_segments None = Inr []
         \<and> parse_vtt_segments (Some []) = Inr []
         \<and> (\<exists>segs. parse_vtt_segments content = Inr segs)"
proof -
  let ?ls = "header @ render_blocks blocks"
  have 1: "parse_vtt_segments (Some (join_lines ?ls))
           = Inr (map cue_segment (filter (\<lambda>c. cue_lines c \<noteq> []) (map fst blocks)))"
  proof (cases "join_lines ?ls = []")
    case True
    have "blocks = []"
    proof (rule ccontr)
      assume "blocks \<noteq> []"
      then obtain b bs where b: "blocks = b # bs" by (cases blocks) auto
      with assms(2) have "wf_timestamp (cue_start (fst b))"
        by (simp add: wf_block_def wf_cue_def)
      from render_cue_line_nonempty[OF this, of "cue_end (fst b)"]
      obtain x xs where x: "render_cue_line (cue_start (fst b)) (cue_end (fst b)) = x # xs"
        by (cases "render_cue_line (cue_start (fst b)) (cue_end (fst b))") auto
      have "render_cue_line (cue_start (fst b)) (cue_end (fst b)) \<in> set ?ls"
        by (simp add: b render_blocks_def render_cue_def)
      from join_lines_contains[OF this] x True show False by simp
    qed
    with True show ?thesis by (simp add: parse_vtt_segments_def)
  next
    case False
    from parse_vtt_segments_lines[OF assms(3) False] scan_lines_document[OF assms(1,2)]
    show ?thesis by simp
  qed
  have 2: "length (map cue_segment (filter (\<lambda>c. cue_lines c \<noteq> []) (map fst blocks)))
             = length (filter (\<lambda>b. cue_lines (fst b) \<noteq> []) blocks)"
    by (simp add: filter_map comp_def)
  have 3: "list_all (\<lambda>s. vtt_text s \<noteq> [])
             (map cue_segment (filter (\<lambda>c. cue_lines c \<noteq> []) (map fst blocks)))"
    using assms(2) cue_segment_text by (fastforce simp: list_all_iff wf_block_def)
  have 4: "list_all (\<lambda>c. parse_timestamp (render_ts (cue_start c))
                          = Inr (start_sec (cue_segment c))
                        \<and> parse_timestamp (render_ts (cue_end c))
                          = Inr (end_sec (cue_segment c))
                        \<and> vtt_text (cue_segment c) = join_space (map strip (cue_lines c)))
             (map fst blocks)"
    using assms(2)
    by (auto simp: list_all_iff wf_block_def wf_cue_def cue_segment_def
          parse_timestamp_render)
  have 5: "parse_vtt_segments None = Inr []" "parse_vtt_segments (Some []) = Inr []"
    by (simp_all add: parse_vtt_segments_def)
  show ?thesis
    using 1 2 3 4 5 parse_vtt_segments_total by blast
qed

text \<open>An example: a header, a cue of two text lines, a cue without text and a third cue.\<close>

definition ts :: "string \<Rightarrow> string \<Rightarrow> string \<Rightarrow> char \<Rightarrow> string \<Rightarrow> timestamp" where
  "ts h m s c f = \<lparr>hh = h, mm = m, ss = s, sep = c, frac = f\<rparr>"

definition example_header :: "string list" where
  "example_header = [''WEBVTT'', '''']"

definition example_blocks :: "(cue \<times> string list) list" where
  "example_blocks =
     [ (\<lparr> cue_start = ts ''00'' ''00'' ''01'' (CHR ''.'') ''000'',
           cue_end = ts ''00'' ''00'' ''04'' (CHR '','') ''500'',
           cue_lines = [''Jane: Hello there'', '' how are you ''] \<rparr>, ['''', ''2'']),
       (\<lparr> cue_start = ts ''00'' ''00'' ''05'' (CHR ''.'') ''000'',
           cue_end = ts ''00'' ''00'' ''06'' (CHR ''.'') ''000'',
           cue_lines = [] \<rparr>, ['''']),
       (\<lparr> cue_start = ts ''0'' ''01'' ''05'' (CHR ''.'') ''250'',
           cue_end = ts ''0'' ''01'' ''10'' (CHR ''.'') ''000'',
           cue_lines = [''Unknown Speaker: Hi''] \<rparr>, []) ]"

theorem parse_vtt_segments_cues_witness:
  "list_all no_match example_header
   \<and> list_all wf_block example_blocks
   \<and> list_all (\<lambda>l. CHR 0x0D \<notin> set l \<and> CHR 0x0A \<notin> set l)
        (example_header @ render_blocks example_blocks)
   \<and> parse_vtt_segments (Some (join_lines (example_header @ render_blocks example_blocks)))
       = Inr [ \<lparr>start_sec = Fin 1, end_sec = Fin (9 / 2),
                vtt_text = ''Jane: Hello there how are you''\<rparr>,
               \<lparr>start_sec = Fin (261 / 4), end_sec = Fin 70,
                vtt_text = ''Unknown Speaker: Hi''\<rparr> ]"
proof -
  have h1: "list_all no_match example_header"
    by code_simp
  have h2: "list_all wf_block example_blocks"
    by code_simp
  have h3: "list_all (\<lambda>l. CHR 0x0D \<notin> set l \<and> CHR 0x0A \<notin> set l)
              (example_header @ render_blocks example_blocks)"
    by code_simp
  have v: "map cue_segment (filter (\<lambda>c. cue_lines c \<noteq> []) (map fst example_blocks))
       = [ \<lparr>start_sec = Fin 1, end_sec = Fin (9 / 2),
                vtt_text = ''Jane: Hello there how are you''\<rparr>,
               \<lparr>start_sec = Fin (261 / 4), end_sec = Fin 70,
                vtt_text = ''Unknown Speaker: Hi''\<rparr> ]"
    by code_simp
  show ?thesis
    using parse_vtt_segments_cues[OF h1 h2 h3] h1 h2 h3 v by simp
qed

text \<open>The claim as stated fails on cue blocks that are well formed as captions. A
  line of digits ends the text of a cue (the parser takes it for the number of the
  next cue): a cue whose text is \<^verbatim>\<open>42\<close> yields no segment, and of the text
  \<^verbatim>\<open>We agreed\<close>, \<^verbatim>\<open>2024\<close>, \<^verbatim>\<open>as the year\<close> only the first line is kept. And the two
  times are never compared: a cue whose end precedes its start yields a segment
  with \<open>end_sec < start_sec\<close>.\<close>

theorem parse_vtt_segments_counterexample:
  "parse_vtt_segments (Some (''00:00:01.000 --> 00:00:02.000'' @ [CHR 0x0A] @ ''42''))
     = Inr []
   \<and> parse_vtt_segments
         (Some (''00:00:01.000 --> 00:00:02.000'' @ [CHR 0x0A] @ ''We agreed''
                @ [CHR 0x0A] @ ''2024'' @ [CHR 0x0A] @ ''as the year''))
       = Inr [\<lparr>start_sec = Fin 1, end_sec = Fin 2, vtt_text = ''We agreed''\<rparr>]
   \<and> parse_vtt_segments (Some (''00:00:05.000 --> 00:00:01.000'' @ [CHR 0x0A] @ ''hi''))
       = Inr [\<lparr>start_sec = Fin 5, end_sec = Fin 1, vtt_text = ''hi''\<rparr>]
   \<and> \<not> fle (Fin 5) (Fin 1)"
proof -
  have 1: "parse_vtt_segments (Some (''00:00:01.000 --> 00:00:02.000'' @ [CHR 0x0A] @ ''42''))
             = Inr []"
    by code_simp
  have 2: "parse_vtt_segments
         (Some (''00:00:01.000 --> 00:00:02.000'' @ [CHR 0x0A] @ ''We agreed''
                @ [CHR 0x0A] @ ''2024'' @ [CHR 0x0A] @ ''as the year''))
       = Inr [\<lparr>start_sec = Fin 1, end_sec = Fin 2, vtt_text = ''We agreed''\<rparr>]"
    by code_simp
  have 3: "parse_vtt_segments (Some (''00:00:05.000 --> 00:00:01.000'' @ [CHR 0x0A] @ ''hi''))
       = Inr [\<lparr>start_sec = Fin 5, end_sec = Fin 1, vtt_text = ''hi''\<rparr>]"
    by code_simp
  have 4: "\<not> fle (Fin 5) (Fin 1)"
    by code_simp
  show ?thesis using 1 2 3 4 by (intro conjI)
qed

subsection \<open>Timestamps without hours\<close>

text \<open>A timestamp in the shape \<^verbatim>\<open>MM:SS.mmm\<close>: one or two digits of minutes, two of
  seconds, a point or a comma, digits of fraction. The field \<open>hh\<close> is not used.\<close>

definition wf_ms_timestamp :: "timestamp \<Rightarrow> bool" where
  "wf_ms_timestamp t \<longleftrightarrow>
     (length (mm t) = 1 \<or> length (mm t) = 2) \<and> all_digits (mm t)
     \<and> length (ss t) = 2 \<and> all_digits (ss t)
     \<and> (sep t = CHR ''.'' \<or> sep t = CHR '','')
     \<and> frac t \<noteq> [] \<and> all_digits (frac t)"

definition render_ms :: "timestamp \<Rightarrow> string" where
  "render_ms t = mm t @ '':'' @ ss t @ [sep t] @ frac t"

lemma match_timestamp_ms:
  assumes "wf_ms_timestamp t"
  shows "match_timestamp (render_ms t @ tail) = None"
proof -
  from assms obtain e f where s: "ss t = [e, f]" and sd: "is_digit e" "is_digit f"
    by (auto simp: wf_ms_timestamp_def all_digits_def dest!: len2)
  from assms have sp: "sep t = CHR ''.'' \<or> sep t = CHR '',''"
    by (simp add: wf_ms_timestamp_def)
  have nc: "\<not> is_digit (CHR '':'')" by (simp add: is_digit_def)
  from assms consider (one) a where "mm t = [a]" "is_digit a"
    | (two) a b where "mm t = [a, b]" "is_digit a" "is_digit b"
    by (auto simp: wf_ms_timestamp_def all_digits_def dest!: len1 len2)
  then show ?thesis
  proof cases
    case one
    then show ?thesis
      using sp
      by (auto simp: match_timestamp_def re_hours_def take_digits_def literal_def render_ms_def
            nc s sd)
  next
    case two
    then show ?thesis
      using sp
      by (auto simp: match_timestamp_def re_hours_def take_digits_def literal_def render_ms_def
            nc s sd)
  qed
qed

text \<open>
  Claim C10. A line whose stripped text starts with a timestamp of the shape
  \<^verbatim>\<open>MM:SS.mmm\<close> is not matched by the cue pattern, whatever follows on the line; the
  scan passes over it as over any other line, so no segment starts at it; yet
  \<^verbatim>\<open>parse_timestamp\<close> reads that very timestamp as minutes and seconds.
\<close>

theorem mmss_cue_not_recognised:
  assumes "wf_ms_timestamp a" and "strip l = render_ms a @ tail"
  shows "timestamp_pattern_match (strip l) = None
         \<and> scan_lines (l # ls) = scan_lines ls
         \<and> parse_timestamp (render_ms a) =
             Inr (Fin (of_nat (digits_value (mm a)) * 60 + of_nat (digits_value (ss a))
                       + of_nat (digits_value (frac a)) / 10 ^ length (frac a)))"
proof -
  have m: "timestamp_pattern_match (strip l) = None"
    by (simp add: timestamp_pattern_match_def assms(2) match_timestamp_ms[OF assms(1)])
  have p: "parse_timestamp (mm a @ '':'' @ ss a @ sep a # frac a) =
             Inr (Fin (of_nat (digits_value (mm a)) * 60 + of_nat (digits_value (ss a))
                       + of_nat (digits_value (frac a)) / 10 ^ length (frac a)))"
    using assms(1) by (intro parse_timestamp_ms) (auto simp: wf_ms_timestamp_def)
  show ?thesis
    using m p by (simp add: render_ms_def)
qed

theorem mmss_cue_not_recognised_witness:
  "wf_ms_timestamp (ts [] ''1'' ''05'' (CHR ''.'') ''250'')
   \<and> strip ''1:05.250 --> 1:10.000'' = render_ms (ts [] ''1'' ''05'' (CHR ''.'') ''250'') @ '' --> 1:10.000''
   \<and> timestamp_pattern_match (strip ''1:05.250 --> 1:10.000'') = None
   \<and> scan_lines [''1:05.250 --> 1:10.000'', ''Hello''] = Inr []
   \<and> parse_timestamp ''1:05.250'' = Inr (Fin (261 / 4))"
proof -
  have h1: "wf_ms_timestamp (ts [] ''1'' ''05'' (CHR ''.'') ''250'')"
    by code_simp
  have h2: "strip ''1:05.250 --> 1:10.000''
              = render_ms (ts [] ''1'' ''05'' (CHR ''.'') ''250'') @ '' --> 1:10.000''"
    by code_simp
  have r: "scan_lines [''Hello''] = Inr []"
    by code_simp
  have v: "render_ms (ts [] ''1'' ''05'' (CHR ''.'') ''250'') = ''1:05.250''"
    by code_simp
  have d: "digits_value ''1'' = 1" "digits_value ''05'' = 5" "digits_value ''250'' = 250"
    by (simp_all add: digits_value_def is_digit_def digit_val_def)
  note t = mmss_cue_not_recognised[OF h1 h2, of "[''Hello'']"]
  have a: "timestamp_pattern_match (strip ''1:05.250 --> 1:10.000'') = None"
    using t by (rule conjunct1)
  have b: "scan_lines [''1:05.250 --> 1:10.000'', ''Hello''] = Inr []"
    using t[THEN conjunct2, THEN conjunct1] r by (simp only:)
  have c: "parse_timestamp ''1:05.250'' = Inr (Fin (261 / 4))"
    using t[THEN conjunct2, THEN conjunct2] unfolding v
    by (simp add: d ts_def)
  show ?thesis
    using h1 h2 a b c by (intro conjI)
qed

subsection \<open>Speaker attribution\<close>

text \<open>
  \<^verbatim>\<open>speaker_pattern.match(vtt_text)\<close> for the pattern \<^verbatim>\<open>^([^:]{2,50}):\s*(.*)$\<close>: the
  text up to its first colon is the name, which must have 2 to 50 characters; after
  the colon whitespace is skipped and the second group runs to the end of the line.
  The dot does not match a line feed and \<^verbatim>\<open>$\<close> stands at the end or before a final
  line feed, so a text with a line feed elsewhere does not match. The two groups are
  returned.
\<close>

definition speaker_pattern_match :: "string \<Rightarrow> (string \<times> string) option" where
  "speaker_pattern_match t =
     (let name = takeWhile (\<lambda>c. c \<noteq> CHR '':'') t;
          r = dropWhile (\<lambda>c. c \<noteq> CHR '':'') t
      in if 2 \<le> length name \<and> length name \<le> 50 \<and> r \<noteq> [] then
           (let r2 = dropWhile is_space (tl r);
                body = takeWhile (\<lambda>c. c \<noteq> CHR 0x0A) r2;
                after = dropWhile (\<lambda>c. c \<noteq> CHR 0x0A) r2
            in if after = [] \<or> after = [CHR 0x0A] then Some (name, body) else None)
         else None)"

text \<open>\<^verbatim>\<open>s.split()\<close>: the maximal runs of characters that are not whitespace.\<close>

fun split_ws_aux :: "string \<Rightarrow> string \<Rightarrow> string list" where
  "split_ws_aux [] cur = (if cur = [] then [] else [cur])"
| "split_ws_aux (c # cs) cur =
     (if is_space c then (if cur = [] then split_ws_aux cs [] else cur # split_ws_aux cs [])
      else split_ws_aux cs (cur @ [c]))"

definition py_split :: "string \<Rightarrow> string list" where
  "py_split s = split_ws_aux s []"

text \<open>\<^verbatim>\<open>len(s.split()) if s else 0\<close>.\<close>

definition word_count :: "string \<Rightarrow> nat" where
  "word_count s = (if s \<noteq> [] then length (py_split s) else 0)"

text \<open>\<^verbatim>\<open>a in b\<close> on strings.\<close>

definition str_in :: "string \<Rightarrow> string \<Rightarrow> bool" where
  "str_in a b \<longleftrightarrow> str_find a b \<noteq> None"

text \<open>The dictionary \<^verbatim>\<open>parse_vtt_with_speakers\<close> returns.\<close>

record timing =
  coach_duration_sec :: pyfloat
  client_duration_sec :: pyfloat
  coach_words :: nat
  client_words :: nat

definition zero_timing :: timing where
  "zero_timing = \<lparr>coach_duration_sec = Fin 0, client_duration_sec = Fin 0,
                   coach_words = 0, client_words = 0\<rparr>"

text \<open>The body of the loop \<^verbatim>\<open>for start_sec, end_sec, vtt_text in segments\<close>, on the four
  accumulators.\<close>

definition attribute_segment :: "string \<Rightarrow> timing \<Rightarrow> segment \<Rightarrow> timing" where
  "attribute_segment coach_name_lower acc seg =
     (let segment_duration = fsub (end_sec seg) (start_sec seg) in
      case speaker_pattern_match (vtt_text seg) of
        Some (g1, g2) \<Rightarrow>
          (let speaker_name = lower (strip g1);
               actual_text = strip g2;
               wc = word_count actual_text
           in if str_in coach_name_lower speaker_name \<or> str_in speaker_name coach_name_lower
              then acc\<lparr> coach_duration_sec := fadd (coach_duration_sec acc) segment_duration,
                        coach_words := coach_words acc + wc \<rparr>
              else acc\<lparr> client_duration_sec := fadd (client_duration_sec acc) segment_duration,
                        client_words := client_words acc + wc \<rparr>)
      | None \<Rightarrow>
          acc\<lparr> client_duration_sec := fadd (client_duration_sec acc) segment_duration,
               client_words := client_words acc + word_count (vtt_text seg) \<rparr>)"

text \<open>The loop, from the zero accumulators, with \<^verbatim>\<open>coach_name.lower().strip()\<close>.\<close>

definition attribute :: "segment list \<Rightarrow> string \<Rightarrow> timing" where
  "attribute segments coach_name =
     foldl (attribute_segment (strip (lower coach_name))) zero_timing segments"

text \<open>\<^verbatim>\<open>parse_vtt_with_speakers\<close>.\<close>

definition parse_vtt_with_speakers :: "string option \<Rightarrow> string \<Rightarrow> py_error + timing" where
  "parse_vtt_with_speakers vtt_content coach_name =
     (if vtt_content = None \<or> vtt_content = Some [] \<or> coach_name = [] then Inr zero_timing
      else (case parse_vtt_segments vtt_content of
              Inl e \<Rightarrow> Inl e
            | Inr segments \<Rightarrow> Inr (attribute segments coach_name)))"

subsubsection \<open>The attribution as the specification words it\<close>

text \<open>The detected name of a segment is the name token of its text when the text has
  the shape \<open>Name: remainder\<close>. It matches the coach name when, both lower-cased and
  trimmed of surrounding whitespace, one is a substring of the other.\<close>
datatype speaker = COACH | CLIENT

definition detected_name :: "segment \<Rightarrow> string option" where
  "detected_name seg = map_option fst (speaker_pattern_match (vtt_text seg))"

definition names_match :: "string \<Rightarrow> string \<Rightarrow> bool" where
  "names_match coach_name name \<longleftrightarrow>
     str_in (strip (lower coach_name)) (lower (strip name))
     \<or> str_in (lower (strip name)) (strip (lower coach_name))"

definition speaker_of :: "string \<Rightarrow> segment \<Rightarrow> speaker" where
  "speaker_of coach_name seg =
     (case detected_name seg of
        Some name \<Rightarrow> if names_match coach_name name then COACH else CLIENT
      | None \<Rightarrow> CLIENT)"

definition counted_words :: "segment \<Rightarrow> nat" where
  "counted_words seg =
     (case speaker_pattern_match (vtt_text seg) of
        Some (name, remainder) \<Rightarrow> word_count (strip remainder)
      | None \<Rightarrow> word_count (vtt_text seg))"

definition duration :: "segment \<Rightarrow> pyfloat" where
  "duration seg = fsub (end_sec seg) (start_sec seg)"

text \<open>The speaking time and the words of one speaker: the durations summed in segment
  order from \<open>0.0\<close>, and the counted words.\<close>

definition total_for :: "speaker \<Rightarrow> string \<Rightarrow> segment list \<Rightarrow> pyfloat \<times> nat" where
  "total_for who coach_name segs =
     (let mine = filter (\<lambda>s. speaker_of coach_name s = who) segs
      in (foldl fadd (Fin 0) (map duration mine), sum_list (map counted_words mine)))"

lemma attribute_segment_cases:
  "attribute_segment (strip (lower cn)) acc seg =
     (if speaker_of cn seg = COACH
      then acc\<lparr> coach_duration_sec := fadd (coach_duration_sec acc) (duration seg),
                coach_words := coach_words acc + counted_words seg \<rparr>
      else acc\<lparr> client_duration_sec := fadd (client_duration_sec acc) (duration seg),
                client_words := client_words acc + counted_words seg \<rparr>)"
  by (auto simp: attribute_segment_def speaker_of_def detected_name_def names_match_def
        counted_words_def duration_def Let_def split: option.splits)

lemma foldl_attribute:
  "foldl (attribute_segment (strip (lower cn))) acc segs =
     \<lparr> coach_duration_sec =
         foldl fadd (coach_duration_sec acc)
           (map duration (filter (\<lambda>s. speaker_of cn s = COACH) segs)),
       client_duration_sec =
         foldl fadd (client_duration_sec acc)
           (map duration (filter (\<lambda>s. speaker_of cn s = CLIENT) segs)),
       coach_words =
         coach_words acc + sum_list (map counted_words (filter (\<lambda>s. speaker_of cn s = COACH) segs)),
       client_words =
         client_words acc + sum_list (map counted_words (filter (\<lambda>s. speaker_of cn s = CLIENT) segs)) \<rparr>"
proof (induction segs arbitrary: acc)
  case Nil
  then show ?case by simp
next
  case (Cons s segs)
  show ?case
    unfolding foldl_Cons Cons.IH
    by (cases "speaker_of cn s") (simp_all add: attribute_segment_cases)
qed

text \<open>On a text without a line feed (every text the caption parser builds) the
  pattern matches exactly the texts \<open>name:rest\<close> with a name of 2 to 50 characters
  that has no colon.\<close>

lemma takeWhile_neq_all: "c \<notin> set xs \<Longrightarrow> takeWhile (\<lambda>x. x \<noteq> c) xs = xs"
  by (induction xs) auto

lemma dropWhile_neq_all: "c \<notin> set xs \<Longrightarrow> dropWhile (\<lambda>x. x \<noteq> c) xs = []"
  by (induction xs) auto

lemma takeWhile_neq_app: "c \<notin> set a \<Longrightarrow> takeWhile (\<lambda>x. x \<noteq> c) (a @ c # b) = a"
  by (induction a) auto

lemma dropWhile_neq_app: "c \<notin> set a \<Longrightarrow> dropWhile (\<lambda>x. x \<noteq> c) (a @ c # b) = c # b"
  by (induction a) auto

lemma speaker_pattern_shape:
  assumes "CHR 0x0A \<notin> set t"
  shows "speaker_pattern_match t = Some (name, remainder) \<longleftrightarrow>
           (\<exists>rest. t = name @ '':'' @ rest \<and> CHR '':'' \<notin> set name
                   \<and> 2 \<le> length name \<and> length name \<le> 50
                   \<and> remainder = dropWhile is_space rest)"
proof
  assume m: "speaker_pattern_match t = Some (name, remainder)"
  let ?n = "takeWhile (\<lambda>c. c \<noteq> CHR '':'') t" and ?r = "dropWhile (\<lambda>c. c \<noteq> CHR '':'') t"
  from m have n: "name = ?n" "2 \<le> length ?n" "length ?n \<le> 50" "?r \<noteq> []"
    by (auto simp: speaker_pattern_match_def Let_def split: if_splits)
  from n(4) have "hd ?r = CHR '':''" using hd_dropWhile[of "\<lambda>c. c \<noteq> CHR '':''" t] by auto
  with n(4) obtain rest where r: "?r = CHR '':'' # rest" by (cases ?r) auto
  have t: "t = ?n @ CHR '':'' # rest"
    using takeWhile_dropWhile_id[of "\<lambda>c. c \<noteq> CHR '':''" t] r by simp
  have "set (dropWhile is_space rest) \<subseteq> set t"
    using t set_dropWhileD[of _ is_space rest]
    by (metis insert_iff list.simps(15) set_append subsetI sup_ge2 subsetD)
  with assms have nl: "CHR 0x0A \<notin> set (dropWhile is_space rest)" by auto
  from m n r have "remainder = takeWhile (\<lambda>c. c \<noteq> CHR 0x0A) (dropWhile is_space rest)"
    by (auto simp: speaker_pattern_match_def Let_def split: if_splits)
  then have rem: "remainder = dropWhile is_space rest"
    by (simp add: takeWhile_neq_all[OF nl])
  have "CHR '':'' \<notin> set name" unfolding n(1) by (auto dest: set_takeWhileD)
  with t n rem show "\<exists>rest. t = name @ '':'' @ rest \<and> CHR '':'' \<notin> set name
                   \<and> 2 \<le> length name \<and> length name \<le> 50
                   \<and> remainder = dropWhile is_space rest"
    by auto
next
  assume "\<exists>rest. t = name @ '':'' @ rest \<and> CHR '':'' \<notin> set name
                   \<and> 2 \<le> length name \<and> length name \<le> 50
                   \<and> remainder = dropWhile is_space rest"
  then obtain rest where t: "t = name @ CHR '':'' # rest" and c: "CHR '':'' \<notin> set name"
    and l: "2 \<le> length name" "length name \<le> 50" and rem: "remainder = dropWhile is_space rest"
    by auto
  have tn: "takeWhile (\<lambda>c. c \<noteq> CHR '':'') t = name"
    unfolding t by (rule takeWhile_neq_app[OF c])
  have dn: "dropWhile (\<lambda>c. c \<noteq> CHR '':'') t = CHR '':'' # rest"
    unfolding t by (rule dropWhile_neq_app[OF c])
  have "CHR 0x0A \<notin> set rest" using assms t by auto
  then have nl: "CHR 0x0A \<notin> set (dropWhile is_space rest)"
    by (auto dest: set_dropWhileD)
  show "speaker_pattern_match t = Some (name, remainder)"
    unfolding speaker_pattern_match_def tn dn Let_def
    using l by (simp add: takeWhile_neq_all[OF nl] dropWhile_neq_all[OF nl] rem)
qed

text \<open>
  Claim C9, as the code has it. For every segment list and coach name, the loop gives
  the coach the durations and the remainder word counts of exactly the segments whose
  text has the shape \<open>Name: remainder\<close> and whose detected name matches the coach
  name, where the two names are compared lower-cased and trimmed of surrounding
  whitespace, by containment in either direction; every other segment goes to the
  client: a matching shape with another name with its remainder words, a text without
  the shape with all its words. With an empty coach name the function returns zeros;
  with a non-empty one and a non-empty caption input it returns the attribution of the
  parsed segments.
\<close>

theorem speaker_attribution:
  "attribute segs coach_name =
     \<lparr> coach_duration_sec = fst (total_for COACH coach_name segs),
       client_duration_sec = fst (total_for CLIENT coach_name segs),
       coach_words = snd (total_for COACH coach_name segs),
       client_words = snd (total_for CLIENT coach_name segs) \<rparr>
   \<and> (speaker_of coach_name seg = COACH \<longleftrightarrow>
        (\<exists>name. detected_name seg = Some name \<and> names_match coach_name name))
   \<and> (speaker_of coach_name seg = CLIENT \<longleftrightarrow>
        (detected_name seg = None
         \<or> (\<exists>name. detected_name seg = Some name \<and> \<not> names_match coach_name name)))
   \<and> parse_vtt_with_speakers vtt_content [] = Inr zero_timing
   \<and> (coach_name \<noteq> [] \<and> vtt \<noteq> [] \<longrightarrow>
        (\<exists>segments. parse_vtt_segments (Some vtt) = Inr segments
           \<and> parse_vtt_with_speakers (Some vtt) coach_name
               = Inr (attribute segments coach_name)))"
proof -
  have 1: "attribute segs coach_name =
     \<lparr> coach_duration_sec = fst (total_for COACH coach_name segs),
       client_duration_sec = fst (total_for CLIENT coach_name segs),
       coach_words = snd (total_for COACH coach_name segs),
       client_words = snd (total_for CLIENT coach_name segs) \<rparr>"
    by (simp add: attribute_def foldl_attribute total_for_def zero_timing_def Let_def)
  have 2: "speaker_of coach_name seg = COACH \<longleftrightarrow>
        (\<exists>name. detected_name seg = Some name \<and> names_match coach_name name)"
    by (auto simp: speaker_of_def split: option.splits)
  have 3: "speaker_of coach_name seg = CLIENT \<longleftrightarrow>
        (detected_name seg = None
         \<or> (\<exists>name. detected_name seg = Some name \<and> \<not> names_match coach_name name))"
    by (auto simp: speaker_of_def split: option.splits)
  have 4: "parse_vtt_with_speakers vtt_content [] = Inr zero_timing"
    by (simp add: parse_vtt_with_speakers_def)
  have 5: "\<exists>segments. parse_vtt_segments (Some vtt) = Inr segments
           \<and> parse_vtt_with_speakers (Some vtt) coach_name
               = Inr (attribute segments coach_name)"
    if "coach_name \<noteq> [] \<and> vtt \<noteq> []"
    using that parse_vtt_segments_total[of "Some vtt"]
    by (auto simp: parse_vtt_with_speakers_def)
  show ?thesis
    using 1 2 3 4 5 by blast
qed

text \<open>The two examples of the specification, for the coach name \<open>Jane Doe\<close>.\<close>

definition example_segments :: "segment list" where
  "example_segments =
     [ \<lparr>start_sec = Fin 0, end_sec = Fin 2, vtt_text = ''Jane: Hello there''\<rparr>,
       \<lparr>start_sec = Fin 2, end_sec = Fin 3, vtt_text = ''Unknown Speaker: Hi''\<rparr> ]"

definition example_vtt :: string where
  "example_vtt = ''00:00:00.000 --> 00:00:02.000'' @ [CHR 0x0A] @ ''Jane: Hello there''
                 @ [CHR 0x0A, CHR 0x0A]
                 @ ''00:00:02.000 --> 00:00:03.000'' @ [CHR 0x0A] @ ''Unknown Speaker: Hi''"

theorem speaker_attribution_witness:
  "''Jane Doe'' \<noteq> [] \<and> example_vtt \<noteq> []
   \<and> parse_vtt_segments (Some example_vtt) = Inr example_segments
   \<and> speaker_of ''Jane Doe'' (example_segments ! 0) = COACH
   \<and> speaker_of ''Jane Doe'' (example_segments ! 1) = CLIENT
   \<and> parse_vtt_with_speakers (Some example_vtt) ''Jane Doe''
       = Inr \<lparr>coach_duration_sec = Fin 2, client_duration_sec = Fin 1,
               coach_words = 2, client_words = 1\<rparr>"
proof -
  have h: "''Jane Doe'' \<noteq> [] \<and> example_vtt \<noteq> []"
    by (simp add: example_vtt_def)
  have p: "parse_vtt_segments (Some example_vtt) = Inr example_segments"
    by code_simp
  have s: "speaker_of ''Jane Doe'' (example_segments ! 0) = COACH"
          "speaker_of ''Jane Doe'' (example_segments ! 1) = CLIENT"
    by code_simp+
  have t: "fst (total_for COACH ''Jane Doe'' example_segments) = Fin 2"
          "fst (total_for CLIENT ''Jane Doe'' example_segments) = Fin 1"
          "snd (total_for COACH ''Jane Doe'' example_segments) = 2"
          "snd (total_for CLIENT ''Jane Doe'' example_segments) = 1"
    by code_simp+
  note inst = speaker_attribution[of example_segments "''Jane Doe''" _ _ example_vtt]
  from inst h p have "parse_vtt_with_speakers (Some example_vtt) ''Jane Doe''
                       = Inr (attribute example_segments ''Jane Doe'')"
    by auto
  moreover from inst have "attribute example_segments ''Jane Doe'' =
       \<lparr>coach_duration_sec = Fin 2, client_duration_sec = Fin 1,
               coach_words = 2, client_words = 1\<rparr>"
    by (simp only: t)
  ultimately show ?thesis
    using h p s by simp
qed

text \<open>The claim as stated compares the lower-cased names as they are. The code trims
  them first: the detected name \<open>jane \<close> (with its trailing space) and the coach name
  \<open>janedoe\<close> do not contain one another, yet the segment goes to the coach.\<close>

theorem speaker_attribution_trim_counterexample:
  "parse_vtt_with_speakers
      (Some (''00:00:00.000 --> 00:00:01.000'' @ [CHR 0x0A] @ ''jane : hello'')) ''janedoe''
     = Inr \<lparr>coach_duration_sec = Fin 1, client_duration_sec = Fin 0,
             coach_words = 1, client_words = 0\<rparr>
   \<and> speaker_pattern_match ''jane : hello'' = Some (''jane '', ''hello'')
   \<and> \<not> str_in (lower ''janedoe'') (lower ''jane '')
   \<and> \<not> str_in (lower ''jane '') (lower ''janedoe'')"
  by code_simp

subsection \<open>The case-check handler and its stores\<close>

text \<open>
  \<^verbatim>\<open>lambda_handler\<close> of \<^verbatim>\<open>case_check/app.py\<close> as a function from the state of the
  stores to a result and a new state. What the repository imports from elsewhere is
  a parameter: the constants of the \<^verbatim>\<open>constants\<close> module, the clock, the prompt
  lookup, the classifier call, the JSON codec, the Pydantic validation and the helper
  that parses stringified fields. Logging and cost accounting are left out: they
  write to neither store.
\<close>

text \<open>The constants the handler reads.\<close>

record config =
  ATHENA_PARTITIONED :: bool
  S3_PREFIX :: string
  SCHEMA_VERSION :: string
  CASE_CHECK_SCHEMA_VERSION :: string
  MODEL_VERSION :: string
  PROMPT_VERSION :: string

text \<open>\<^verbatim>\<open>datetime.now(timezone.utc)\<close>, as far as the handler looks at it.\<close>

record clock =
  year :: nat
  month :: nat

text \<open>The decimal text of a number, and the format \<^verbatim>\<open>{n:0wd}\<close>.\<close>

fun show_nat :: "nat \<Rightarrow> string" where
  "show_nat n =
     (if n < 10 then [''0123456789'' ! n]
      else show_nat (n div 10) @ [''0123456789'' ! (n mod 10)])"

declare show_nat.simps [simp del]

definition zero_pad :: "nat \<Rightarrow> nat \<Rightarrow> string" where
  "zero_pad width n = replicate (width - length (show_nat n)) (CHR ''0'') @ show_nat n"

text \<open>The key of the case-check object: the same f-strings stand in \<^verbatim>\<open>lambda_handler\<close>
  and in \<^verbatim>\<open>_save_case_json\<close>.\<close>

definition case_check_key :: "config \<Rightarrow> clock \<Rightarrow> string \<Rightarrow> string" where
  "case_check_key c t mid =
     (if ATHENA_PARTITIONED c
      then S3_PREFIX c @ ''/supplementary/version='' @ SCHEMA_VERSION c
           @ ''/year='' @ show_nat (year t) @ ''/month='' @ zero_pad 2 (month t)
           @ ''/meeting_id='' @ mid
           @ ''/case_check.v'' @ CASE_CHECK_SCHEMA_VERSION c @ ''.json''
      else S3_PREFIX c @ ''/'' @ zero_pad 4 (year t) @ ''/'' @ zero_pad 2 (month t)
           @ ''/'' @ mid
           @ ''/case_check.v'' @ CASE_CHECK_SCHEMA_VERSION c @ ''.json'')"

text \<open>The classifier response: the content blocks of \<^verbatim>\<open>output.message\<close> and
  \<^verbatim>\<open>stopReason\<close>.\<close>

record response =
  content :: "(string \<times> json) list list"
  stopReason :: string

text \<open>An item put into the assessment table: its two keys and the recorded outcome
  (the other attributes are left out).\<close>

record table_item =
  item_meeting_id :: string
  assessment_id :: string
  item_result :: string

text \<open>The stores: the bucket (key to body), the assessment table (the items put, in
  order), and a count of the classifier calls made.\<close>

record world =
  s3 :: "string \<rightharpoonup> string"
  table :: "table_item list"
  classifications :: nat

text \<open>What one invocation gets from outside. The clock is read twice: for the
  idempotency check, and again inside \<^verbatim>\<open>_save_case_json\<close>.\<close>

record env =
  cfg :: config
  now :: clock
  now_save :: clock
  prompt_arn :: "string option"
  kb_examples :: string
  invoke_classifier :: "string \<Rightarrow> string \<Rightarrow> py_error + response"
  json_loads :: "string \<Rightarrow> json option"
  json_dumps :: "json \<Rightarrow> string"
  model_validate :: "(string \<times> json) list \<Rightarrow> py_error + case_check_payload"
  parse_stringified_fields :: "(string \<times> json) list \<Rightarrow> py_error + (string \<times> json) list"
  calculate_call_analytics :: "string \<Rightarrow> string option \<Rightarrow> json"

text \<open>The event; an absent text field is the empty string.\<close>

record event =
  redactedTranscriptKey :: string
  meetingId :: string
  forceReprocess :: bool
  callMetrics :: "json option"

text \<open>The two dictionaries the handler returns: the early return of the idempotency
  check (data, key, pass rate), and the full result (data, key, pass rate,
  \<^verbatim>\<open>hasVulnerability\<close>, call analytics).\<close>

datatype handler_result =
    Reused json string pyfloat
  | Completed json string pyfloat bool json

text \<open>\<^verbatim>\<open>float(v)\<close> on a decoded JSON value.\<close>

fun float_of_json :: "json \<Rightarrow> py_error + pyfloat" where
  "float_of_json (JInt n) = float_of_int n"
| "float_of_json (JFloat q) = Inr (Fin q)"
| "float_of_json JInfinity = Inr PInf"
| "float_of_json JMinusInfinity = Inr NInf"
| "float_of_json JNaN = Inr NaN"
| "float_of_json (JBool b) = Inr (Fin (if b then 1 else 0))"
| "float_of_json (JStr s) = (case py_float s of Some x \<Rightarrow> Inr x | None \<Rightarrow> Inl ValueError)"
| "float_of_json v = Inl TypeError"

text \<open>\<^verbatim>\<open>float(case_data.get("overall", {}).get("pass_rate", 0.0))\<close>; a value without
  \<^verbatim>\<open>get\<close> raises \<^verbatim>\<open>AttributeError\<close>.\<close>

definition pass_rate_of :: "json \<Rightarrow> py_error + pyfloat" where
  "pass_rate_of case_data =
     (case case_data of
        JObj d \<Rightarrow>
          (case dict_get_default d ''overall'' (JObj []) of
             JObj ov \<Rightarrow> float_of_json (dict_get_default ov ''pass_rate'' (JFloat 0))
           | _ \<Rightarrow> Inl AttributeError)
      | _ \<Rightarrow> Inl AttributeError)"

text \<open>The persisted data as JSON: what \<^verbatim>\<open>json.dumps\<close> is given.\<close>

fun status_name :: "status \<Rightarrow> string" where
  "status_name Competent = ''Competent''"
| "status_name CompetentWithDevelopment = ''CompetentWithDevelopment''"
| "status_name Fail = ''Fail''"
| "status_name NotApplicable = ''NotApplicable''"
| "status_name Inconclusive = ''Inconclusive''"

definition json_of_text :: "string option \<Rightarrow> json" where
  "json_of_text t = (case t of None \<Rightarrow> JNull | Some s \<Rightarrow> JStr s)"

definition dump_result :: "case_check_result \<Rightarrow> json" where
  "dump_result r =
     JObj [ (''id'', JStr (id_r r)),
            (''status'', JStr (status_name (status r))),
            (''confidence'', JFloat (confidence r)),
            (''evidence_spans'', JArr (map span_json (evidence_spans r))),
            (''evidence_quote'', json_of_text (evidence_quote r)),
            (''comment'', json_of_text (comment r)) ]"

definition dump_case_data :: "case_data \<Rightarrow> json" where
  "dump_case_data data =
     (let p = payload data in
      JObj [ (''check_schema_version'', JStr (check_schema_version p)),
             (''session_type'', JStr (session_type p)),
             (''checklist_version'', JStr (checklist_version p)),
             (''meeting_id'', JStr (meeting_id p)),
             (''model_version'', JStr (model_version p)),
             (''prompt_version'', JStr (prompt_version p)),
             (''results'', JArr (map dump_result (results p))),
             (''overall'', JObj (overall p)),
             (''call_analytics'', call_analytics data) ])"

text \<open>The idempotency check. \<^verbatim>\<open>NoSuchKey\<close> and every other exception (a body that is
  not JSON, a pass rate that is not a number) are caught, and the handler goes on to
  classify.\<close>

definition cached_case_check :: "env \<Rightarrow> world \<Rightarrow> string \<Rightarrow> handler_result option" where
  "cached_case_check e w case_key =
     (case s3 w case_key of
        None \<Rightarrow> None
      | Some body \<Rightarrow>
          (case json_loads e body of
             None \<Rightarrow> None
           | Some cd \<Rightarrow>
               (case pass_rate_of cd of
                  Inl err \<Rightarrow> None
                | Inr pass_rate \<Rightarrow> Some (Reused cd case_key pass_rate))))"

text \<open>\<^verbatim>\<open>get_vtt_from_s3\<close>: the captions lie beside the transcript; any failure is
  \<open>None\<close>.\<close>

definition rsplit_head :: "string \<Rightarrow> string" where
  "rsplit_head k =
     (if CHR ''/'' \<in> set k then rev (tl (dropWhile (\<lambda>c. c \<noteq> CHR ''/'') (rev k))) else k)"

definition get_vtt_from_s3 :: "world \<Rightarrow> string \<Rightarrow> string option" where
  "get_vtt_from_s3 w transcript_key = s3 w (rsplit_head transcript_key @ ''/zoom_raw.vtt'')"

text \<open>The call analytics: the metrics of the event when they are truthy (the log line
  calls \<^verbatim>\<open>get\<close> on them), else computed from the transcript.\<close>

definition choose_analytics :: "env \<Rightarrow> event \<Rightarrow> world \<Rightarrow> string \<Rightarrow> py_error + json" where
  "choose_analytics e ev w full_transcript =
     (case callMetrics ev of
        Some m \<Rightarrow>
          if truthy m then (case m of JObj d \<Rightarrow> Inr m | _ \<Rightarrow> Inl AttributeError)
          else Inr (calculate_call_analytics e full_transcript
                      (get_vtt_from_s3 w (redactedTranscriptKey ev)))
      | None \<Rightarrow>
          Inr (calculate_call_analytics e full_transcript
                 (get_vtt_from_s3 w (redactedTranscriptKey ev))))"

text \<open>The structured output: the first content block with a \<^verbatim>\<open>toolUse\<close>, refused when
  missing or falsy; then the check of \<^verbatim>\<open>stopReason\<close>; then the \<^verbatim>\<open>input\<close> of the
  block, which the calls of \<^verbatim>\<open>setdefault\<close> need to be a dictionary.\<close>

definition extract_tool_input :: "response \<Rightarrow> py_error + (string \<times> json) list" where
  "extract_tool_input resp =
     (let tool_use_block =
            (case find (\<lambda>block. dict_get block ''toolUse'' \<noteq> None) (content resp) of
               None \<Rightarrow> JNull
             | Some block \<Rightarrow> dict_get_default block ''toolUse'' JNull)
      in if \<not> truthy tool_use_block then Inl ValueError
         else if stopReason resp = ''max_tokens'' then Inl ValueError
         else (case tool_use_block of
                 JObj tu \<Rightarrow>
                   (case dict_get tu ''input'' of
                      None \<Rightarrow> Inl KeyError
                    | Some (JObj validated_json) \<Rightarrow> Inr validated_json
                    | Some v \<Rightarrow> Inl AttributeError)
               | _ \<Rightarrow> Inl TypeError))"

text \<open>\<^verbatim>\<open>d.setdefault(k, v)\<close> and the six metadata fields.\<close>

definition setdefault :: "string \<Rightarrow> json \<Rightarrow> (string \<times> json) list \<Rightarrow> (string \<times> json) list" where
  "setdefault k v d = (if dict_get d k = None then d @ [(k, v)] else d)"

definition inject_metadata :: "config \<Rightarrow> string \<Rightarrow> (string \<times> json) list \<Rightarrow> (string \<times> json) list" where
  "inject_metadata c mid validated_json =
     setdefault ''prompt_version'' (JStr (PROMPT_VERSION c))
      (setdefault ''model_version'' (JStr (MODEL_VERSION c))
       (setdefault ''meeting_id'' (JStr mid)
        (setdefault ''checklist_version'' (JStr ''1'')
         (setdefault ''session_type'' (JStr ''starter_session'')
          (setdefault ''check_schema_version'' (JStr (CASE_CHECK_SCHEMA_VERSION c))
             validated_json)))))"

text \<open>The defensive parse of a \<^verbatim>\<open>results\<close> field that came as a string.\<close>

definition parse_results_field :: "env \<Rightarrow> (string \<times> json) list \<Rightarrow> py_error + (string \<times> json) list" where
  "parse_results_field e validated_json =
     (case dict_get validated_json ''results'' of
        Some (JStr s) \<Rightarrow> parse_stringified_fields e validated_json
      | _ \<Rightarrow> Inr validated_json)"

text \<open>From the response to the data to persist: everything between the classifier
  call and \<^verbatim>\<open>_save_case_json\<close>.\<close>

definition process_response ::
  "env \<Rightarrow> event \<Rightarrow> string \<Rightarrow> json \<Rightarrow> response \<Rightarrow> py_error + case_data \<times> bool" where
  "process_response e ev full_transcript analytics resp =
     (case extract_tool_input resp of Inl err \<Rightarrow> Inl err | Inr vj0 \<Rightarrow>
      case parse_results_field e (inject_metadata (cfg e) (meetingId ev) vj0) of
        Inl err \<Rightarrow> Inl err | Inr vj1 \<Rightarrow>
      case ensure_overall vj1 of Inl err \<Rightarrow> Inl err | Inr vj2 \<Rightarrow>
      case clean_evidence_spans full_transcript vj2 of Inl err \<Rightarrow> Inl err | Inr vj3 \<Rightarrow>
      case model_validate e vj3 of Inl err \<Rightarrow> Inl err | Inr parsed \<Rightarrow>
        Inr (finalize (meetingId ev) (MODEL_VERSION (cfg e)) (PROMPT_VERSION (cfg e))
               analytics parsed))"

text \<open>\<^verbatim>\<open>_save_checks_to_assessment_table\<close>: one item for every result with an id, then
  the overall item. The whole body stands in a \<^verbatim>\<open>try\<close>: when the pass rate is not a
  number the overall item is not written and nothing is raised.\<close>

definition save_checks :: "string \<Rightarrow> case_data \<Rightarrow> table_item list" where
  "save_checks mid data =
     map (\<lambda>r. \<lparr>item_meeting_id = mid, assessment_id = ''case-check#'' @ id_r r,
               item_result = status_name (status r)\<rparr>)
         (filter (\<lambda>r. id_r r \<noteq> []) (results (payload data)))
     @ (case float_of_json (dict_get_default (overall (payload data)) ''pass_rate'' (JFloat 0)) of
          Inl err \<Rightarrow> []
        | Inr pass_rate \<Rightarrow>
            [\<lparr>item_meeting_id = mid, assessment_id = ''case-check#overall'',
              item_result = (if list_all (\<lambda>r. id_r r = [] \<or> status r \<noteq> Fail)
                                  (results (payload data))
                             then ''Pass'' else ''Fail'')\<rparr>])"

text \<open>The handler from the transcript fetch on. The object is written, then the table,
  and only then is the returned pass rate computed: a pass rate that is not a number
  raises after both writes.\<close>

definition run_case_check :: "env \<Rightarrow> event \<Rightarrow> world \<Rightarrow> (py_error + handler_result) \<times> world" where
  "run_case_check e ev w =
     (case s3 w (redactedTranscriptKey ev) of
        None \<Rightarrow> (Inl NoSuchKey, w)
      | Some full_transcript \<Rightarrow>
     (case choose_analytics e ev w full_transcript of
        Inl err \<Rightarrow> (Inl err, w)
      | Inr analytics \<Rightarrow>
     (case prompt_arn e of
        None \<Rightarrow> (Inl ValueError, w)
      | Some arn \<Rightarrow>
     (let w1 = w\<lparr>classifications := Suc (classifications w)\<rparr> in
      case invoke_classifier e (kb_examples e) full_transcript of
        Inl err \<Rightarrow> (Inl err, w1)
      | Inr resp \<Rightarrow>
     (case process_response e ev full_transcript analytics resp of
        Inl err \<Rightarrow> (Inl err, w1)
      | Inr (data, has_vulnerability) \<Rightarrow>
     (let key = case_check_key (cfg e) (now_save e) (meetingId ev);
          w2 = w1\<lparr>s3 := (s3 w1)(key \<mapsto> json_dumps e (dump_case_data data))\<rparr>;
          w3 = w2\<lparr>table := table w2 @ save_checks (meetingId ev) data\<rparr>
      in case float_of_json
                (dict_get_default (overall (payload data)) ''pass_rate'' (JFloat 0)) of
           Inl err \<Rightarrow> (Inl err, w3)
         | Inr pass_rate \<Rightarrow>
             (Inr (Completed (dump_case_data data) key pass_rate has_vulnerability analytics),
              w3)))))))"

text \<open>\<^verbatim>\<open>lambda_handler\<close>.\<close>

definition lambda_handler :: "env \<Rightarrow> event \<Rightarrow> world \<Rightarrow> (py_error + handler_result) \<times> world" where
  "lambda_handler e ev w =
     (if redactedTranscriptKey ev = [] then (Inl ValueError, w)
      else if meetingId ev = [] then (Inl ValueError, w)
      else (case (if forceReprocess ev then None
                  else cached_case_check e w
                         (case_check_key (cfg e) (now e) (meetingId ev))) of
              Some reused \<Rightarrow> (Inr reused, w)
            | None \<Rightarrow> run_case_check e ev w))"

subsection \<open>A truncated response\<close>

lemma extract_tool_input_truncated:
  "stopReason resp = ''max_tokens'' \<Longrightarrow> extract_tool_input resp = Inl ValueError"
  by (simp add: extract_tool_input_def Let_def)

lemma process_response_truncated:
  "stopReason resp = ''max_tokens'' \<Longrightarrow>
   process_response e ev t a resp = Inl ValueError"
  by (simp add: process_response_def extract_tool_input_truncated)

lemma run_case_check_truncated:
  assumes "s3 w (redactedTranscriptKey ev) = Some t"
      and "invoke_classifier e (kb_examples e) t = Inr resp"
      and "stopReason resp = ''max_tokens''"
  shows "run_case_check e ev w = (Inl ValueError, w\<lparr>classifications := Suc (classifications w)\<rparr>)
         \<or> (\<exists>err. run_case_check e ev w = (Inl err, w))"
  using assms process_response_truncated[OF assms(3)]
  by (auto simp: run_case_check_def Let_def split: sum.splits option.splits)

text \<open>
  Claim C5. In an invocation whose transcript is in the bucket and whose classifier
  call answers with \<^verbatim>\<open>stopReason = "max_tokens"\<close>, the handler writes neither the
  case-check object nor any item of the assessment table (both stores are as
  before), and never returns a completed result. Whenever the classifier was called
  at all (the invocation did not end on the idempotency check or an earlier error),
  the handler raises \<^verbatim>\<open>ValueError\<close>.
\<close>

theorem truncated_response_not_persisted:
  assumes "s3 w (redactedTranscriptKey ev) = Some transcript"
      and "invoke_classifier e (kb_examples e) transcript = Inr resp"
      and "stopReason resp = ''max_tokens''"
  shows "s3 (snd (lambda_handler e ev w)) = s3 w
         \<and> table (snd (lambda_handler e ev w)) = table w
         \<and> (\<forall>d k p v a. fst (lambda_handler e ev w) \<noteq> Inr (Completed d k p v a))
         \<and> (classifications (snd (lambda_handler e ev w)) \<noteq> classifications w \<longrightarrow>
              fst (lambda_handler e ev w) = Inl ValueError)"
proof -
  from run_case_check_truncated[OF assms]
  consider (classified) "run_case_check e ev w =
                 (Inl ValueError, w\<lparr>classifications := Suc (classifications w)\<rparr>)"
    | (early) err where "run_case_check e ev w = (Inl err, w)"
    by blast
  then show ?thesis
  proof cases
    case classified
    then show ?thesis
      by (auto simp: lambda_handler_def cached_case_check_def split: option.splits sum.splits)
  next
    case early
    then show ?thesis
      by (auto simp: lambda_handler_def cached_case_check_def split: option.splits sum.splits)
  qed
qed

subsection \<open>Reuse and recomputation in the case-check handler\<close>

lemma pass_rate_of_dump:
  "pass_rate_of (dump_case_data data) =
     float_of_json (dict_get_default (overall (payload data)) ''pass_rate'' (JFloat 0))"
  by (simp add: pass_rate_of_def dump_case_data_def dict_get_default_def Let_def)

lemma run_case_check_completed:
  assumes "run_case_check e ev w = (Inr res, w')"
  shows "\<exists>d p v a. res = Completed d (case_check_key (cfg e) (now_save e) (meetingId ev)) p v a
           \<and> s3 w' (case_check_key (cfg e) (now_save e) (meetingId ev)) = Some (json_dumps e d)
           \<and> pass_rate_of d = Inr p
           \<and> classifications w' = Suc (classifications w)"
  using assms
  by (auto simp: run_case_check_def Let_def pass_rate_of_dump
           split: sum.splits option.splits prod.splits)

lemma lambda_handler_reuse:
  assumes "redactedTranscriptKey ev \<noteq> []" "meetingId ev \<noteq> []" "\<not> forceReprocess ev"
      and "s3 w (case_check_key (cfg e) (now e) (meetingId ev)) = Some body"
      and "json_loads e body = Some cd"
      and "pass_rate_of cd = Inr p"
  shows "lambda_handler e ev w =
           (Inr (Reused cd (case_check_key (cfg e) (now e) (meetingId ev)) p), w)"
  using assms by (simp add: lambda_handler_def cached_case_check_def)

lemma lambda_handler_completed:
  assumes "lambda_handler e ev w = (Inr (Completed d k p v a), w')"
  shows "k = case_check_key (cfg e) (now_save e) (meetingId ev)
         \<and> s3 w' k = Some (json_dumps e d) \<and> pass_rate_of d = Inr p
         \<and> classifications w' = Suc (classifications w)
         \<and> redactedTranscriptKey ev \<noteq> [] \<and> meetingId ev \<noteq> []"
proof -
  from assms have ne: "redactedTranscriptKey ev \<noteq> []" "meetingId ev \<noteq> []"
    by (auto simp: lambda_handler_def split: if_splits)
  from assms ne have "run_case_check e ev w = (Inr (Completed d k p v a), w')"
    by (auto simp: lambda_handler_def cached_case_check_def
             split: if_splits option.splits sum.splits)
  from run_case_check_completed[OF this] ne show ?thesis by auto
qed

lemma lambda_handler_forced:
  assumes "forceReprocess ev" and "lambda_handler e ev w = (Inr res, w')"
  shows "\<exists>d p v a. res = Completed d (case_check_key (cfg e) (now_save e) (meetingId ev)) p v a
           \<and> s3 w' (case_check_key (cfg e) (now_save e) (meetingId ev)) = Some (json_dumps e d)
           \<and> classifications w' = Suc (classifications w)"
proof -
  from assms have "run_case_check e ev w = (Inr res, w')"
    by (auto simp: lambda_handler_def split: if_splits)
  from run_case_check_completed[OF this] show ?thesis by blast
qed

subsection \<open>The fast path of the initiate handler\<close>

text \<open>
  \<^verbatim>\<open>initiate_case_check/app.py\<close> answers a request for a meeting whose case check is
  recorded as completed without starting the workflow. The job table and the listing
  of the bucket are parameters; the attributes of the job item are typed as the
  handler uses them (two strings and a number).
\<close>

record job_item =
  caseCheckStatus :: "string option"
  caseCheckKey :: "string option"
  casePassRate :: "json option"

text \<open>What \<^verbatim>\<open>get_item\<close> answers (or raises), the flag \<^verbatim>\<open>AWS_SAM_LOCAL\<close>, the keys
  under the prefix, the JSON decoder and \<^verbatim>\<open>CASE_CHECK_SCHEMA_VERSION\<close>.\<close>

record initiate_env =
  job_lookup :: "py_error + job_item option"
  AWS_SAM_LOCAL :: bool
  listed_keys :: "string list"
  loads :: "string \<Rightarrow> json option"
  schema :: string

text \<open>The dictionary \<^verbatim>\<open>_get_existing_case_check\<close> returns: status, key, pass rate.\<close>

datatype existing = Existing string string pyfloat

text \<open>\<^verbatim>\<open>str.upper\<close> on ASCII letters.\<close>

definition ascii_upper :: "string \<Rightarrow> string" where
  "ascii_upper s =
     map (\<lambda>c. let n = (of_char c :: nat)
              in if 97 \<le> n \<and> n \<le> 122 then char_of (n - 32) else c) s"

text \<open>\<^verbatim>\<open>_check_s3_case_check_completion\<close>: some key under the prefix ends with the
  meeting's file name, whatever the partition.\<close>

definition check_s3_case_check_completion :: "initiate_env \<Rightarrow> string \<Rightarrow> bool" where
  "check_s3_case_check_completion ie mid =
     list_ex (suffix (''/'' @ mid @ ''/case_check.v'' @ schema ie @ ''.json''))
       (listed_keys ie)"

text \<open>The body of the \<^verbatim>\<open>try\<close> of \<^verbatim>\<open>_get_existing_case_check\<close>, after the lookup.\<close>

definition existing_from_item :: "job_item option \<Rightarrow> py_error + existing option" where
  "existing_from_item item_opt =
     (case item_opt of
        None \<Rightarrow> Inr None
      | Some item \<Rightarrow>
          (let case_check_status =
                 ascii_upper (case caseCheckStatus item of None \<Rightarrow> [] | Some st \<Rightarrow> st)
           in case caseCheckKey item of
                None \<Rightarrow> Inr None
              | Some key \<Rightarrow>
                  if case_check_status = ''COMPLETED'' \<and> key \<noteq> [] then
                    (case float_of_json
                            (case casePassRate item of None \<Rightarrow> JFloat 0 | Some v \<Rightarrow> v) of
                       Inl err \<Rightarrow> Inl err
                     | Inr rate \<Rightarrow> Inr (Some (Existing case_check_status key rate)))
                  else Inr None))"

text \<open>\<^verbatim>\<open>_get_existing_case_check\<close>: any exception of the lookup leads to the fallback
  on the bucket, which reports the placeholder key and the pass rate 0.0.\<close>

definition get_existing_case_check :: "initiate_env \<Rightarrow> string \<Rightarrow> existing option" where
  "get_existing_case_check ie mid =
     (case (case job_lookup ie of
              Inl err \<Rightarrow> Inl err
            | Inr item \<Rightarrow> existing_from_item item) of
        Inr found \<Rightarrow> found
      | Inl err \<Rightarrow>
          if AWS_SAM_LOCAL ie then None
          else if check_s3_case_check_completion ie mid
               then Some (Existing ''COMPLETED'' ''found_in_s3'' (Fin 0))
               else None)"

text \<open>The body of the response \<^verbatim>\<open>Case check already completed\<close>.\<close>

record completed_response =
  resp_meetingId :: string
  resp_caseCheckKey :: string
  resp_casePassRate :: pyfloat
  resp_caseCheckStatus :: string
  resp_data :: "json option"

text \<open>Step 1 of the handler, for a validated meeting identifier: \<open>Some\<close> is the early
  return, \<open>None\<close> means the handler goes on to queue the meeting and start the
  workflow.\<close>

definition initiate_fast_path ::
  "initiate_env \<Rightarrow> world \<Rightarrow> bool \<Rightarrow> string \<Rightarrow> completed_response option" where
  "initiate_fast_path ie w force_reprocess mid =
     (if force_reprocess then None
      else (case get_existing_case_check ie mid of
              None \<Rightarrow> None
            | Some (Existing st key rate) \<Rightarrow>
                (let case_check_full_data =
                       (if key \<noteq> [] \<and> key \<noteq> ''found_in_s3''
                        then (case s3 w key of None \<Rightarrow> None | Some body \<Rightarrow> loads ie body)
                        else None)
                 in Some \<lparr> resp_meetingId = mid, resp_caseCheckKey = key,
                           resp_casePassRate = rate, resp_caseCheckStatus = st,
                           resp_data = (case case_check_full_data of
                                          None \<Rightarrow> None
                                        | Some d \<Rightarrow> if truthy d then Some d else None) \<rparr>)))"

lemma initiate_fast_path_completed:
  assumes "job_lookup ie = Inr (Some item)"
      and "caseCheckStatus item = Some st" "ascii_upper st = ''COMPLETED''"
      and "caseCheckKey item = Some key" "key \<noteq> []" "key \<noteq> ''found_in_s3''"
      and "float_of_json (case casePassRate item of None \<Rightarrow> JFloat 0 | Some v \<Rightarrow> v)
             = Inr rate"
      and "s3 w key = Some body" "loads ie body = Some cd" "truthy cd"
  shows "initiate_fast_path ie w False mid =
           Some \<lparr> resp_meetingId = mid, resp_caseCheckKey = key, resp_casePassRate = rate,
                  resp_caseCheckStatus = ''COMPLETED'', resp_data = Some cd \<rparr>"
  using assms
  by (simp add: initiate_fast_path_def get_existing_case_check_def existing_from_item_def
        Let_def)

lemma initiate_fast_path_forced: "initiate_fast_path ie w True mid = None"
  by (simp add: initiate_fast_path_def)

subsection \<open>What the two fast paths achieve\<close>

text \<open>
  For the case-check handler:
  \<^enum> a run without the force flag that finds an object under the key of the current
    year and month (one that decodes, with a numeric pass rate) returns the decoded
    payload, that key and that pass rate, and leaves the stores and the count of
    classifier calls as they were;
  \<^enum> after a completed run, a second run for the same meeting without the force flag,
    with the same constants, in the month in which the first one saved, and with a
    decoder that inverts the encoder on the payload, returns the payload, key and pass
    rate of the first run and changes nothing;
  \<^enum> a forced run that succeeds has called the classifier once and has left its own
    payload under the key of the month in which it saved.

  For the initiate handler:
  \<^enum> without the force flag, a job item marked completed with a key answers with
    that key, the recorded pass rate and the payload stored under the key, in any
    month;
  \<^enum> with the force flag the fast path is not taken.
\<close>

lemma case_check_reuse:
  "(redactedTranscriptKey ev \<noteq> [] \<and> meetingId ev \<noteq> [] \<and> \<not> forceReprocess ev
      \<and> s3 w (case_check_key (cfg e) (now e) (meetingId ev)) = Some body
      \<and> json_loads e body = Some cd \<and> pass_rate_of cd = Inr p \<longrightarrow>
      lambda_handler e ev w =
        (Inr (Reused cd (case_check_key (cfg e) (now e) (meetingId ev)) p), w))
   \<and> (lambda_handler e1 ev1 w1 = (Inr (Completed d k p1 v a), w2)
      \<and> cfg e2 = cfg e1 \<and> now e2 = now_save e1
      \<and> json_loads e2 (json_dumps e1 d) = Some d
      \<and> meetingId ev2 = meetingId ev1 \<and> redactedTranscriptKey ev2 \<noteq> []
      \<and> \<not> forceReprocess ev2 \<longrightarrow>
      lambda_handler e2 ev2 w2 = (Inr (Reused d k p1), w2))
   \<and> (forceReprocess ev \<and> lambda_handler e ev w = (Inr res, w') \<longrightarrow>
      (\<exists>d p v a.
          res = Completed d (case_check_key (cfg e) (now_save e) (meetingId ev)) p v a
          \<and> s3 w' (case_check_key (cfg e) (now_save e) (meetingId ev)) = Some (json_dumps e d)
          \<and> classifications w' = Suc (classifications w)))
   \<and> (job_lookup ie = Inr (Some item)
      \<and> caseCheckStatus item = Some st \<and> ascii_upper st = ''COMPLETED''
      \<and> caseCheckKey item = Some key \<and> key \<noteq> [] \<and> key \<noteq> ''found_in_s3''
      \<and> float_of_json (case casePassRate item of None \<Rightarrow> JFloat 0 | Some x \<Rightarrow> x) = Inr rate
      \<and> s3 w0 key = Some body0 \<and> loads ie body0 = Some cd0 \<and> truthy cd0 \<longrightarrow>
      initiate_fast_path ie w0 False mid =
        Some \<lparr> resp_meetingId = mid, resp_caseCheckKey = key, resp_casePassRate = rate,
               resp_caseCheckStatus = ''COMPLETED'', resp_data = Some cd0 \<rparr>)
   \<and> initiate_fast_path ie w0 True mid = None"
proof (intro conjI impI)
  assume "redactedTranscriptKey ev \<noteq> [] \<and> meetingId ev \<noteq> [] \<and> \<not> forceReprocess ev
      \<and> s3 w (case_check_key (cfg e) (now e) (meetingId ev)) = Some body
      \<and> json_loads e body = Some cd \<and> pass_rate_of cd = Inr p"
  then show "lambda_handler e ev w =
        (Inr (Reused cd (case_check_key (cfg e) (now e) (meetingId ev)) p), w)"
    by (intro lambda_handler_reuse[where body = body]) simp_all
next
  assume a: "lambda_handler e1 ev1 w1 = (Inr (Completed d k p1 v a), w2)
      \<and> cfg e2 = cfg e1 \<and> now e2 = now_save e1
      \<and> json_loads e2 (json_dumps e1 d) = Some d
      \<and> meetingId ev2 = meetingId ev1 \<and> redactedTranscriptKey ev2 \<noteq> []
      \<and> \<not> forceReprocess ev2"
  then have run: "lambda_handler e1 ev1 w1 = (Inr (Completed d k p1 v a), w2)" by simp
  note c = lambda_handler_completed[OF run]
  have k: "k = case_check_key (cfg e2) (now e2) (meetingId ev2)"
    using a c by simp
  have "lambda_handler e2 ev2 w2 =
          (Inr (Reused d (case_check_key (cfg e2) (now e2) (meetingId ev2)) p1), w2)"
    using a c k by (intro lambda_handler_reuse[where body = "json_dumps e1 d"]) auto
  then show "lambda_handler e2 ev2 w2 = (Inr (Reused d k p1), w2)"
    using k by simp
next
  assume "forceReprocess ev \<and> lambda_handler e ev w = (Inr res, w')"
  then show "\<exists>d p v a.
          res = Completed d (case_check_key (cfg e) (now_save e) (meetingId ev)) p v a
          \<and> s3 w' (case_check_key (cfg e) (now_save e) (meetingId ev)) = Some (json_dumps e d)
          \<and> classifications w' = Suc (classifications w)"
    using lambda_handler_forced by blast
next
  assume "job_lookup ie = Inr (Some item)
      \<and> caseCheckStatus item = Some st \<and> ascii_upper st = ''COMPLETED''
      \<and> caseCheckKey item = Some key \<and> key \<noteq> [] \<and> key \<noteq> ''found_in_s3''
      \<and> float_of_json (case casePassRate item of None \<Rightarrow> JFloat 0 | Some x \<Rightarrow> x) = Inr rate
      \<and> s3 w0 key = Some body0 \<and> loads ie body0 = Some cd0 \<and> truthy cd0"
  then show "initiate_fast_path ie w0 False mid =
        Some \<lparr> resp_meetingId = mid, resp_caseCheckKey = key, resp_casePassRate = rate,
               resp_caseCheckStatus = ''COMPLETED'', resp_data = Some cd0 \<rparr>"
    by (intro initiate_fast_path_completed[where item = item and st = st and body = body0])
       simp_all
next
  show "initiate_fast_path ie w0 True mid = None"
    by (rule initiate_fast_path_forced)
qed

subsection \<open>Example runs\<close>

definition example_config :: config where
  "example_config =
     \<lparr> ATHENA_PARTITIONED = False, S3_PREFIX = ''summaries'', SCHEMA_VERSION = ''1.2'',
       CASE_CHECK_SCHEMA_VERSION = ''1.0'', MODEL_VERSION = ''model-a'',
       PROMPT_VERSION = ''prompt-a'' \<rparr>"

definition example_tool_input :: "(string \<times> json) list" where
  "example_tool_input =
     [ (''results'',
        JArr [JObj [ (''id'', JStr ''dob_confirmed''), (''status'', JStr ''Fail''),
                     (''confidence'', JFloat (9 / 10)), (''evidence_quote'', JStr []),
                     (''evidence_spans'', JArr []), (''comment'', JStr ''not asked'') ]]),
       (''overall'', JObj [(''pass_rate'', JFloat 0)]) ]"

definition example_response :: "string \<Rightarrow> response" where
  "example_response stop =
     \<lparr> content = [[(''toolUse'', JObj [(''input'', JObj example_tool_input)])]],
       stopReason = stop \<rparr>"

definition example_payload :: case_check_payload where
  "example_payload =
     \<lparr> check_schema_version = ''1.0'', session_type = ''starter_session'',
       checklist_version = ''1'', meeting_id = ''m1'', model_version = ''model-a'',
       prompt_version = ''prompt-a'',
       results = [\<lparr> id_r = ''dob_confirmed'', status = Fail, confidence = 9 / 10,
                     evidence_spans = [], evidence_quote = Some [],
                     comment = Some ''not asked'' \<rparr>],
       overall = [(''pass_rate'', JFloat 0)] \<rparr>"

definition example_old :: json where
  "example_old =
     JObj [(''meeting_id'', JStr ''m1''), (''overall'', JObj [(''pass_rate'', JFloat 50)])]"

definition example_new :: json where
  "example_new =
     dump_case_data (fst (finalize ''m1'' ''model-a'' ''prompt-a'' (JObj []) example_payload))"

definition example_env :: "clock \<Rightarrow> string \<Rightarrow> env" where
  "example_env t stop =
     \<lparr> cfg = example_config, now = t, now_save = t,
       prompt_arn = Some ''arn:prompt'', kb_examples = [],
       invoke_classifier = (\<lambda>kb transcript. Inr (example_response stop)),
       json_loads = (\<lambda>body. if body = ''{old}'' then Some example_old
                            else if body = ''{new}'' then Some example_new else None),
       json_dumps = (\<lambda>j. if j = example_new then ''{new}'' else ''{other}''),
       model_validate = (\<lambda>vj. Inr example_payload),
       parse_stringified_fields = Inr,
       calculate_call_analytics = (\<lambda>transcript vtt. JObj []) \<rparr>"

definition example_event :: "bool \<Rightarrow> event" where
  "example_event force =
     \<lparr> redactedTranscriptKey = ''t/m1/redacted_transcript.txt'', meetingId = ''m1'',
       forceReprocess = force, callMetrics = None \<rparr>"

definition january :: clock where
  "january = \<lparr>year = 2026, month = 1\<rparr>"

definition february :: clock where
  "february = \<lparr>year = 2026, month = 2\<rparr>"

definition fresh_world :: world where
  "fresh_world =
     \<lparr> s3 = [''t/m1/redacted_transcript.txt'' \<mapsto> ''COACH: hello''],
       table = [], classifications = 0 \<rparr>"

definition january_world :: world where
  "january_world =
     \<lparr> s3 = [''t/m1/redacted_transcript.txt'' \<mapsto> ''COACH: hello'',
              ''summaries/2026/01/m1/case_check.v1.0.json'' \<mapsto> ''{old}''],
       table = [], classifications = 0 \<rparr>"

definition example_job :: job_item where
  "example_job =
     \<lparr> caseCheckStatus = Some ''Completed'',
       caseCheckKey = Some ''summaries/2026/01/m1/case_check.v1.0.json'',
       casePassRate = Some (JFloat 50) \<rparr>"

definition example_initiate_env :: initiate_env where
  "example_initiate_env =
     \<lparr> job_lookup = Inr (Some example_job), AWS_SAM_LOCAL = False, listed_keys = [],
       loads = json_loads (example_env february ''tool_use''), schema = ''1.0'' \<rparr>"

text \<open>The data of a completed run are those of \<open>finalize\<close>: the flags of claims C2
  and C3 are the ones persisted and returned.\<close>

lemma lambda_handler_persists_finalized:
  assumes "lambda_handler e ev w = (Inr (Completed d k p v a), w')"
  shows "\<exists>parsed. d = dump_case_data (fst (finalize (meetingId ev) (MODEL_VERSION (cfg e))
                                             (PROMPT_VERSION (cfg e)) a parsed))
                  \<and> v = snd (finalize (meetingId ev) (MODEL_VERSION (cfg e))
                                (PROMPT_VERSION (cfg e)) a parsed)"
  using assms
  by (auto simp: lambda_handler_def cached_case_check_def run_case_check_def Let_def
        process_response_def
      split: if_splits option.splits sum.splits prod.splits)
     (metis fst_conv snd_conv)+

text \<open>A truncated response on an empty store.\<close>

theorem truncated_response_not_persisted_witness:
  "s3 fresh_world (redactedTranscriptKey (example_event False)) = Some ''COACH: hello''
   \<and> invoke_classifier (example_env january ''max_tokens'')
         (kb_examples (example_env january ''max_tokens'')) ''COACH: hello''
       = Inr (example_response ''max_tokens'')
   \<and> stopReason (example_response ''max_tokens'') = ''max_tokens''
   \<and> classifications
         (snd (lambda_handler (example_env january ''max_tokens'') (example_event False)
                 fresh_world)) = 1
   \<and> fst (lambda_handler (example_env january ''max_tokens'') (example_event False)
             fresh_world) = Inl ValueError
   \<and> table (snd (lambda_handler (example_env january ''max_tokens'') (example_event False)
                   fresh_world)) = []
   \<and> s3 (snd (lambda_handler (example_env january ''max_tokens'') (example_event False)
                fresh_world)) ''summaries/2026/01/m1/case_check.v1.0.json'' = None"
proof -
  let ?e = "example_env january ''max_tokens''" and ?ev = "example_event False"
  have h1: "s3 fresh_world (redactedTranscriptKey ?ev) = Some ''COACH: hello''"
    by (simp add: fresh_world_def example_event_def)
  have h2: "invoke_classifier ?e (kb_examples ?e) ''COACH: hello''
              = Inr (example_response ''max_tokens'')"
    by (simp add: example_env_def)
  have h3: "stopReason (example_response ''max_tokens'') = ''max_tokens''"
    by (simp add: example_response_def)
  have c: "classifications (snd (lambda_handler ?e ?ev fresh_world)) = 1"
    by code_simp
  have w0: "classifications fresh_world = 0" "table fresh_world = []"
    "s3 fresh_world ''summaries/2026/01/m1/case_check.v1.0.json'' = None"
    by (simp_all add: fresh_world_def)
  note t = truncated_response_not_persisted[OF h1 h2 h3]
  have r: "fst (lambda_handler ?e ?ev fresh_world) = Inl ValueError"
    using t c w0(1) by simp
  have tb: "table (snd (lambda_handler ?e ?ev fresh_world)) = []"
    using t w0(2) by simp
  have st: "s3 (snd (lambda_handler ?e ?ev fresh_world))
              ''summaries/2026/01/m1/case_check.v1.0.json'' = None"
    using t w0(3) by simp
  show ?thesis
    using h1 h2 h3 c r tb st by (intro conjI)
qed

text \<open>A store that holds a payload for the meeting under the key of January 2026: a
  run in January reuses it, a forced run replaces it, and the next run reuses the
  new one. The initiate handler, given the job item of the January run, answers
  with the stored payload.\<close>

lemma case_check_reuse_example:
  "\<not> forceReprocess (example_event False)
   \<and> s3 january_world ''summaries/2026/01/m1/case_check.v1.0.json'' = Some ''{old}''
   \<and> json_loads (example_env january ''tool_use'') ''{old}'' = Some example_old
   \<and> pass_rate_of example_old = Inr (Fin 50)
   \<and> lambda_handler (example_env january ''tool_use'') (example_event False) january_world
       = (Inr (Reused example_old ''summaries/2026/01/m1/case_check.v1.0.json'' (Fin 50)),
          january_world)
   \<and> forceReprocess (example_event True)
   \<and> fst (lambda_handler (example_env january ''tool_use'') (example_event True)
             january_world)
       = Inr (Completed example_new ''summaries/2026/01/m1/case_check.v1.0.json'' (Fin 0)
                False (JObj []))
   \<and> s3 (snd (lambda_handler (example_env january ''tool_use'') (example_event True)
                january_world)) ''summaries/2026/01/m1/case_check.v1.0.json'' = Some ''{new}''
   \<and> lambda_handler (example_env january ''tool_use'') (example_event False)
         (snd (lambda_handler (example_env january ''tool_use'') (example_event True)
                 january_world))
       = (Inr (Reused example_new ''summaries/2026/01/m1/case_check.v1.0.json'' (Fin 0)),
          snd (lambda_handler (example_env january ''tool_use'') (example_event True)
                 january_world))
   \<and> job_lookup example_initiate_env = Inr (Some example_job)
   \<and> ascii_upper ''Completed'' = ''COMPLETED''
   \<and> initiate_fast_path example_initiate_env january_world False ''m1''
       = Some \<lparr> resp_meetingId = ''m1'',
                resp_caseCheckKey = ''summaries/2026/01/m1/case_check.v1.0.json'',
                resp_casePassRate = Fin 50, resp_caseCheckStatus = ''COMPLETED'',
                resp_data = Some example_old \<rparr>"
proof -
  let ?e = "example_env january ''tool_use''"
  let ?k = "''summaries/2026/01/m1/case_check.v1.0.json''"
  let ?w2 = "snd (lambda_handler ?e (example_event True) january_world)"
  have ev: "redactedTranscriptKey (example_event b) \<noteq> []" "meetingId (example_event b) \<noteq> []"
    "meetingId (example_event b) = ''m1''" "forceReprocess (example_event b) = b" for b
    by (simp_all add: example_event_def)
  have k: "case_check_key (cfg ?e) (now ?e) ''m1'' = ?k"
          "case_check_key (cfg ?e) (now_save ?e) ''m1'' = ?k"
    by code_simp+
  have s: "s3 january_world ?k = Some ''{old}''"
    by (simp add: january_world_def)
  have l: "json_loads ?e ''{old}'' = Some example_old"
    by (simp add: example_env_def)
  have p: "pass_rate_of example_old = Inr (Fin 50)"
    by code_simp
  have a: "lambda_handler ?e (example_event False) january_world
             = (Inr (Reused example_old ?k (Fin 50)), january_world)"
    using case_check_reuse[where ev = "example_event False" and w = january_world
            and e = ?e and body = "''{old}''" and cd = example_old and p = "Fin 50"]
          ev s l p k
    by simp
  have f: "fst (lambda_handler ?e (example_event True) january_world)
             = Inr (Completed example_new ?k (Fin 0) False (JObj []))"
    by code_simp
  then have run: "lambda_handler ?e (example_event True) january_world
             = (Inr (Completed example_new ?k (Fin 0) False (JObj [])), ?w2)"
    by (simp add: prod_eq_iff)
  have rt: "json_loads ?e (json_dumps ?e example_new) = Some example_new"
    by code_simp
  have nw: "now ?e = now_save ?e"
    by (simp add: example_env_def)
  have d: "json_dumps ?e example_new = ''{new}''"
    by code_simp
  have b: "lambda_handler ?e (example_event False) ?w2
             = (Inr (Reused example_new ?k (Fin 0)), ?w2)"
    using case_check_reuse[where ?e1.0 = ?e and ?ev1.0 = "example_event True"
            and ?w1.0 = january_world and d = example_new and k = ?k and ?p1.0 = "Fin 0"
            and v = False and a = "JObj []" and ?w2.0 = ?w2 and ?e2.0 = ?e
            and ?ev2.0 = "example_event False"]
          run rt ev nw
    by simp
  have c: "s3 ?w2 ?k = Some ''{new}''"
    using case_check_reuse[where ev = "example_event True" and e = ?e
            and w = january_world
            and res = "Completed example_new ?k (Fin 0) False (JObj [])" and w' = ?w2]
          run ev k d
    by auto
  have j: "job_lookup example_initiate_env = Inr (Some example_job)"
          "caseCheckStatus example_job = Some ''Completed''"
          "caseCheckKey example_job = Some ?k"
          "float_of_json (case casePassRate example_job of None \<Rightarrow> JFloat 0 | Some x \<Rightarrow> x)
             = Inr (Fin 50)"
          "loads example_initiate_env ''{old}'' = Some example_old"
          "truthy example_old"
    by (simp_all add: example_initiate_env_def example_job_def example_env_def
          example_old_def)
  have u: "ascii_upper ''Completed'' = ''COMPLETED''"
    by code_simp
  have i: "initiate_fast_path example_initiate_env january_world False ''m1''
       = Some \<lparr> resp_meetingId = ''m1'', resp_caseCheckKey = ?k,
                resp_casePassRate = Fin 50, resp_caseCheckStatus = ''COMPLETED'',
                resp_data = Some example_old \<rparr>"
    using case_check_reuse[where ie = example_initiate_env and item = example_job
            and st = "''Completed''" and key = ?k and rate = "Fin 50"
            and ?w0.0 = january_world and ?body0.0 = "''{old}''" and ?cd0.0 = example_old
            and mid = "''m1''"]
          j u s
    by simp
  show ?thesis
    using ev(4) s l p a f c b j(1) u i by (intro conjI) simp_all
qed

text \<open>
  Claim C6 at a change of month. The store holds the payload persisted in January
  2026 for meeting \<open>m1\<close>. A run of the case-check handler without the force flag in
  January returns it, as the claim says. The same run in February looks under the
  key of February only, finds nothing, calls the classifier and returns a newly
  computed payload with another pass rate; afterwards the store holds two payloads
  for the one meeting. The other look-ups of the repository do not depend on the
  month of the call: \<^verbatim>\<open>load_metrics_from_s3\<close> tries the current month and the two
  before it, and \<^verbatim>\<open>_check_s3_case_check_completion\<close> accepts a key of any partition.
\<close>

theorem case_check_month_rollover:
  "fst (lambda_handler (example_env january ''tool_use'') (example_event False) january_world)
     = Inr (Reused example_old ''summaries/2026/01/m1/case_check.v1.0.json'' (Fin 50))
   \<and> fst (lambda_handler (example_env february ''tool_use'') (example_event False)
             january_world)
       = Inr (Completed example_new ''summaries/2026/02/m1/case_check.v1.0.json'' (Fin 0)
                False (JObj []))
   \<and> classifications
         (snd (lambda_handler (example_env february ''tool_use'') (example_event False)
                 january_world)) = 1
   \<and> s3 (snd (lambda_handler (example_env february ''tool_use'') (example_event False)
                january_world)) ''summaries/2026/01/m1/case_check.v1.0.json'' = Some ''{old}''
   \<and> s3 (snd (lambda_handler (example_env february ''tool_use'') (example_event False)
                january_world)) ''summaries/2026/02/m1/case_check.v1.0.json'' = Some ''{new}''"
proof -
  have 1: "fst (lambda_handler (example_env january ''tool_use'') (example_event False)
                  january_world)
     = Inr (Reused example_old ''summaries/2026/01/m1/case_check.v1.0.json'' (Fin 50))"
    by code_simp
  have 2: "fst (lambda_handler (example_env february ''tool_use'') (example_event False)
             january_world)
       = Inr (Completed example_new ''summaries/2026/02/m1/case_check.v1.0.json'' (Fin 0)
                False (JObj []))"
    by code_simp
  have 3: "classifications
         (snd (lambda_handler (example_env february ''tool_use'') (example_event False)
                 january_world)) = 1"
    by code_simp
  have 4: "s3 (snd (lambda_handler (example_env february ''tool_use'') (example_event False)
                january_world)) ''summaries/2026/01/m1/case_check.v1.0.json'' = Some ''{old}''"
    by code_simp
  have 5: "s3 (snd (lambda_handler (example_env february ''tool_use'') (example_event False)
                january_world)) ''summaries/2026/02/m1/case_check.v1.0.json'' = Some ''{new}''"
    by code_simp
  show ?thesis using 1 2 3 4 5 by (intro conjI)
qed

text \<open>A second way past the idempotency check, within one month. The classifier
  supplies an \<^verbatim>\<open>overall\<close> whose pass rate is \<^verbatim>\<open>null\<close>. The first run writes the object
  and then raises on \<^verbatim>\<open>float(None)\<close>; the second run finds the object, raises on the
  same conversion inside the check, where every exception is caught, and classifies
  again.\<close>

definition null_rate_payload :: case_check_payload where
  "null_rate_payload = example_payload\<lparr>overall := [(''pass_rate'', JNull)]\<rparr>"

definition null_rate_data :: json where
  "null_rate_data =
     dump_case_data (fst (finalize ''m1'' ''model-a'' ''prompt-a'' (JObj []) null_rate_payload))"

definition null_rate_env :: env where
  "null_rate_env =
     (example_env january ''tool_use'')
       \<lparr> json_loads := (\<lambda>body. if body = ''{null}'' then Some null_rate_data else None),
         json_dumps := (\<lambda>j. if j = null_rate_data then ''{null}'' else ''{other}''),
         model_validate := (\<lambda>vj. Inr null_rate_payload) \<rparr>"

lemma case_check_null_pass_rate:
  "fst (lambda_handler null_rate_env (example_event False) fresh_world) = Inl TypeError
   \<and> s3 (snd (lambda_handler null_rate_env (example_event False) fresh_world))
         ''summaries/2026/01/m1/case_check.v1.0.json'' = Some ''{null}''
   \<and> classifications (snd (lambda_handler null_rate_env (example_event False) fresh_world)) = 1
   \<and> classifications
         (snd (lambda_handler null_rate_env (example_event False)
                 (snd (lambda_handler null_rate_env (example_event False) fresh_world)))) = 2"
proof -
  have 1: "fst (lambda_handler null_rate_env (example_event False) fresh_world) = Inl TypeError"
    by code_simp
  have 2: "s3 (snd (lambda_handler null_rate_env (example_event False) fresh_world))
         ''summaries/2026/01/m1/case_check.v1.0.json'' = Some ''{null}''"
    by code_simp
  have 3: "classifications (snd (lambda_handler null_rate_env (example_event False) fresh_world))
             = 1"
    by code_simp
  have 4: "classifications
         (snd (lambda_handler null_rate_env (example_event False)
                 (snd (lambda_handler null_rate_env (example_event False) fresh_world)))) = 2"
    by code_simp
  show ?thesis using 1 2 3 4 by (intro conjI)
qed

end
